theory Spec2Isabelle
  imports Complex_Main
begin

section \<open>Observation richness estimation\<close>

text \<open>
  A model of \<^verbatim>\<open>qiime/estimate_observation_richness.py\<close>. The module is Python 2 (\<^verbatim>\<open>range\<close> returns a list, which \<^verbatim>\<open>insort\<close> updates) with
  \<^verbatim>\<open>from __future__ import division\<close>: integers are
  unbounded (\<open>int\<close>), and \<^verbatim>\<open>/\<close> is true division. Results of \<^verbatim>\<open>/\<close> are modelled as
  exact reals, so no rounding takes place in the model. Every \<^verbatim>\<open>raise\<close> of the source and
  every failing primitive (list index out of range, division by zero, factorial of a
  negative number) is a value \<open>Inl e\<close> of the result type \<open>error + 'a\<close>. Names are
  the source's, without a leading underscore; \<^verbatim>\<open>__init__\<close> and \<^verbatim>\<open>__call__\<close> are \<open>init\<close>
  and \<open>call\<close>, and a method of a concrete strategy class carries the class as a prefix.
\<close>

subsection \<open>Errors and Python primitives\<close>

datatype error =
    EmptyTableError
  | EmptySampleError
  | ValueError
  | IndexError
  | ZeroDivisionError
  | TypeError

text \<open>\<^verbatim>\<open>xs[i]\<close>: a negative index counts from the end, anything outside raises IndexError.\<close>

definition py_index :: "'a list \<Rightarrow> int \<Rightarrow> error + 'a" where
  "py_index xs i =
     (if 0 \<le> i \<and> i < int (length xs) then Inr (xs ! nat i)
      else if i < 0 \<and> - int (length xs) \<le> i then Inr (xs ! nat (int (length xs) + i))
      else Inl IndexError)"

text \<open>
  \<^verbatim>\<open>a / b\<close> on Python numbers raises ZeroDivisionError when \<open>b\<close> is zero. (On numpy scalars
  the same division gives inf or nan with a warning; in both cases no number comes back.)
\<close>

definition py_truediv :: "real \<Rightarrow> real \<Rightarrow> error + real" where
  "py_truediv a b = (if b = 0 then Inl ZeroDivisionError else Inr (a / b))"

text \<open>\<^verbatim>\<open>math.factorial\<close> raises ValueError on a negative argument.\<close>

definition factorial :: "int \<Rightarrow> error + nat" where
  "factorial x = (if x < 0 then Inl ValueError else Inr (fact (nat x)))"

text \<open>\<^verbatim>\<open>numpy.sqrt\<close> returns nan (here \<open>None\<close>) on a negative argument.\<close>

definition np_sqrt :: "real \<Rightarrow> real option" where
  "np_sqrt x = (if x < 0 then None else Some (sqrt x))"

text \<open>
  Python 2 orders \<^verbatim>\<open>None\<close> below every number: \<^verbatim>\<open>None < 1\<close> and \<^verbatim>\<open>1 > None\<close> are both
  True. An omitted optional argument is \<open>None\<close>.
\<close>

fun py2_lt :: "int option \<Rightarrow> int option \<Rightarrow> bool" where
  "py2_lt None None = False"
| "py2_lt None (Some b) = True"
| "py2_lt (Some a) None = False"
| "py2_lt (Some a) (Some b) = (a < b)"

text \<open>
  \<^verbatim>\<open>range(a, b, s)\<close> as a list, for a step \<open>s \<ge> 1\<close>; the only caller checks the step
  before it builds the range.
\<close>

function py_range :: "int \<Rightarrow> int \<Rightarrow> int \<Rightarrow> int list" where
  "py_range a b s = (if 1 \<le> s \<and> a < b then a # py_range (a + s) b s else [])"
  by pat_completeness auto
termination
  by (relation "measure (\<lambda>(a, b, s). nat (b - a))") auto

declare py_range.simps [simp del]

text \<open>
  \<^verbatim>\<open>bisect.insort(points, x)\<close> on an ascending list: \<open>x\<close> goes after the entries that
  are at most \<open>x\<close>.
\<close>

fun insort_right :: "int list \<Rightarrow> int \<Rightarrow> int list" where
  "insort_right [] x = [x]"
| "insort_right (y # ys) x = (if x < y then x # y # ys else y # insort_right ys x)"

subsection \<open>The strategy objects\<close>

record full_richness_estimator =
  estimateUnobservedObservationCount :: "int list \<Rightarrow> error + real"

record point_estimator =
  estimateExpectedObservationCount ::
    "int \<Rightarrow> int \<Rightarrow> int list \<Rightarrow> int \<Rightarrow> full_richness_estimator \<Rightarrow> error + real"
  estimateExpectedObservationCountStdErr ::
    "int \<Rightarrow> int \<Rightarrow> int list \<Rightarrow> int \<Rightarrow> real \<Rightarrow> full_richness_estimator \<Rightarrow> error + real option"

text \<open>\<^verbatim>\<open>AbstractFullRichnessEstimator.estimateFullRichness\<close>: \<open>S_est = S_obs + f_hat_0\<close>.\<close>

definition estimateFullRichness ::
  "full_richness_estimator \<Rightarrow> int list \<Rightarrow> int \<Rightarrow> error + real" where
  "estimateFullRichness fre abundance_frequency_counts observation_count =
     (case estimateUnobservedObservationCount fre abundance_frequency_counts of
        Inl e \<Rightarrow> Inl e
      | Inr unobserved \<Rightarrow> Inr (of_int observation_count + unobserved))"

subsection \<open>Chao1FullRichnessEstimator\<close>

definition Chao1_estimateUnobservedObservationCount :: "int list \<Rightarrow> error + real" where
  "Chao1_estimateUnobservedObservationCount abundance_frequency_counts =
     (case py_index abundance_frequency_counts 0 of
        Inl e \<Rightarrow> Inl e
      | Inr f1 \<Rightarrow>
     (case py_index abundance_frequency_counts 1 of
        Inl e \<Rightarrow> Inl e
      | Inr f2 \<Rightarrow>
          if f1 < 0 \<or> f2 < 0 then Inl ValueError
          else if f2 > 0 then py_truediv (of_int (f1 ^ 2)) (of_int (2 * f2))
          else py_truediv (of_int (f1 * (f1 - 1))) (of_int (2 * (f2 + 1)))))"

definition Chao1FullRichnessEstimator :: full_richness_estimator where
  "Chao1FullRichnessEstimator =
     \<lparr>estimateUnobservedObservationCount = Chao1_estimateUnobservedObservationCount\<rparr>"

subsection \<open>MultinomialPointEstimator\<close>

definition calculate_alpha_km :: "int \<Rightarrow> int \<Rightarrow> int \<Rightarrow> error + real" where
  "calculate_alpha_km n k m =
     (if k \<le> n - m then
        (case factorial (n - k) of Inl e \<Rightarrow> Inl e | Inr a \<Rightarrow>
        (case factorial (n - m) of Inl e \<Rightarrow> Inl e | Inr b \<Rightarrow>
        (case factorial n of Inl e \<Rightarrow> Inl e | Inr c \<Rightarrow>
        (case factorial (n - k - m) of Inl e \<Rightarrow> Inl e | Inr d \<Rightarrow>
           py_truediv (of_nat (a * b)) (of_nat (c * d))))))
      else Inr 0)"

text \<open>
  The same function with the calls to \<^verbatim>\<open>factorial\<close> recorded. \<open>factorial_logged\<close> is
  \<open>factorial\<close> that also appends its argument to a log of the calls made so far; it is the
  only thing that extends the log. \<open>calculate_alpha_km_logged\<close> is the body of
  \<^verbatim>\<open>_calculate_alpha_km\<close> with every call of \<^verbatim>\<open>factorial\<close> made through it, in the order
  Python evaluates them, and it returns the log with the result.
\<close>

definition factorial_logged :: "int \<Rightarrow> int list \<Rightarrow> int list \<times> (error + nat)" where
  "factorial_logged x calls = (calls @ [x], factorial x)"

definition calculate_alpha_km_logged ::
  "int \<Rightarrow> int \<Rightarrow> int \<Rightarrow> int list \<Rightarrow> int list \<times> (error + real)" where
  "calculate_alpha_km_logged n k m log0 =
     (if k \<le> n - m then
        (case factorial_logged (n - k) log0 of
           (log1, Inl e) \<Rightarrow> (log1, Inl e)
         | (log1, Inr a) \<Rightarrow>
        (case factorial_logged (n - m) log1 of
           (log2, Inl e) \<Rightarrow> (log2, Inl e)
         | (log2, Inr b) \<Rightarrow>
        (case factorial_logged n log2 of
           (log3, Inl e) \<Rightarrow> (log3, Inl e)
         | (log3, Inr c) \<Rightarrow>
        (case factorial_logged (n - k - m) log3 of
           (log4, Inl e) \<Rightarrow> (log4, Inl e)
         | (log4, Inr d) \<Rightarrow> (log4, py_truediv (of_nat (a * b)) (of_nat (c * d)))))))
      else (log0, Inr 0))"

definition calculate_covariance :: "int \<Rightarrow> int \<Rightarrow> int \<Rightarrow> real \<Rightarrow> bool \<Rightarrow> error + real" where
  "calculate_covariance f_i f_j s_obs f_hat same_var =
     (if same_var then
        (case py_truediv (of_int f_i) (of_int s_obs + f_hat) of
           Inl e \<Rightarrow> Inl e
         | Inr q \<Rightarrow> Inr (of_int f_i * (1 - q)))
      else
        (case py_truediv (- of_int (f_i * f_j)) (of_int s_obs + f_hat) of
           Inl e \<Rightarrow> Inl e
         | Inr q \<Rightarrow> Inr q))"

text \<open>
  The loop of equation 4: \<^verbatim>\<open>for k in range(1, n + 1): accumulation += alpha_km * fk[k - 1]\<close>,
  over the values of \<open>k\<close> still to visit.
\<close>

fun accumulate_alpha :: "int \<Rightarrow> int \<Rightarrow> int list \<Rightarrow> int list \<Rightarrow> real \<Rightarrow> error + real" where
  "accumulate_alpha n m fk [] accumulation = Inr accumulation"
| "accumulate_alpha n m fk (k # ks) accumulation =
     (case calculate_alpha_km n k m of
        Inl e \<Rightarrow> Inl e
      | Inr alpha_km \<Rightarrow>
     (case py_index fk (k - 1) of
        Inl e \<Rightarrow> Inl e
      | Inr f \<Rightarrow> accumulate_alpha n m fk ks (accumulation + alpha_km * of_int f)))"

definition Multinomial_estimateExpectedObservationCount ::
  "int \<Rightarrow> int \<Rightarrow> int list \<Rightarrow> int \<Rightarrow> full_richness_estimator \<Rightarrow> error + real" where
  "Multinomial_estimateExpectedObservationCount m n fk s_obs full_richness_estimator =
     (if m \<le> n then
        (case accumulate_alpha n m fk [1..n] 0 of
           Inl e \<Rightarrow> Inl e
         | Inr accumulation \<Rightarrow> Inr (of_int s_obs - accumulation))
      else
        (let m_star = m - n in
         case estimateUnobservedObservationCount full_richness_estimator fk of
           Inl e \<Rightarrow> Inl e
         | Inr f_hat \<Rightarrow>
        (case py_index fk 0 of
           Inl e \<Rightarrow> Inl e
         | Inr f1 \<Rightarrow>
        (case py_truediv (of_int f1) (of_int n * f_hat) of
           Inl e \<Rightarrow> Inl e
         | Inr q \<Rightarrow> Inr (of_int s_obs + f_hat * (1 - (1 - q) ^ nat m_star))))))"

text \<open>The loop of equation 5: \<^verbatim>\<open>accumulation += ((1 - alpha_km)**2) * fk[k - 1]\<close>.\<close>

fun accumulate_variance :: "int \<Rightarrow> int \<Rightarrow> int list \<Rightarrow> int list \<Rightarrow> real \<Rightarrow> error + real" where
  "accumulate_variance n m fk [] accumulation = Inr accumulation"
| "accumulate_variance n m fk (k # ks) accumulation =
     (case calculate_alpha_km n k m of
        Inl e \<Rightarrow> Inl e
      | Inr alpha_km \<Rightarrow>
     (case py_index fk (k - 1) of
        Inl e \<Rightarrow> Inl e
      | Inr f \<Rightarrow> accumulate_variance n m fk ks (accumulation + (1 - alpha_km) ^ 2 * of_int f)))"

text \<open>
  The double loop of equation 10 over the pairs \<open>(i, j)\<close> still to visit, \<open>i\<close> outer and
  \<open>j\<close> inner.
\<close>

fun accumulate_covariance ::
  "int list \<Rightarrow> int \<Rightarrow> real \<Rightarrow> (int \<times> int) list \<Rightarrow> real \<Rightarrow> error + real" where
  "accumulate_covariance fk s_obs f_hat [] accumulation = Inr accumulation"
| "accumulate_covariance fk s_obs f_hat ((i, j) # ps) accumulation =
     (case py_index fk (i - 1) of
        Inl e \<Rightarrow> Inl e
      | Inr f_i \<Rightarrow>
     (case py_index fk (j - 1) of
        Inl e \<Rightarrow> Inl e
      | Inr f_j \<Rightarrow>
     (case calculate_covariance f_i f_j s_obs f_hat (i = j) of
        Inl e \<Rightarrow> Inl e
      | Inr cov \<Rightarrow> accumulate_covariance fk s_obs f_hat ps (accumulation + cov))))"

definition Multinomial_estimateExpectedObservationCountStdErr ::
  "int \<Rightarrow> int \<Rightarrow> int list \<Rightarrow> int \<Rightarrow> real \<Rightarrow> full_richness_estimator \<Rightarrow> error + real option" where
  "Multinomial_estimateExpectedObservationCountStdErr m n fk s_obs s_m full_richness_estimator =
     (if m \<le> n then
        (case estimateFullRichness full_richness_estimator fk s_obs of
           Inl e \<Rightarrow> Inl e
         | Inr s_est \<Rightarrow>
        (case accumulate_variance n m fk [1..n] 0 of
           Inl e \<Rightarrow> Inl e
         | Inr accumulation \<Rightarrow>
        (case py_truediv (s_m ^ 2) s_est of
           Inl e \<Rightarrow> Inl e
         | Inr q \<Rightarrow> Inr (np_sqrt (accumulation - q)))))
      else
        (case estimateUnobservedObservationCount full_richness_estimator fk of
           Inl e \<Rightarrow> Inl e
         | Inr f_hat \<Rightarrow>
        (case accumulate_covariance fk s_obs f_hat (List.product [1..n] [1..n]) 0 of
           Inl e \<Rightarrow> Inl e
         | Inr accumulation \<Rightarrow> Inr (Some accumulation))))"

definition MultinomialPointEstimator :: point_estimator where
  "MultinomialPointEstimator =
     \<lparr>estimateExpectedObservationCount = Multinomial_estimateExpectedObservationCount,
      estimateExpectedObservationCountStdErr =
        Multinomial_estimateExpectedObservationCountStdErr\<rparr>"

subsection \<open>ObservationRichnessEstimator\<close>

text \<open>
  The BIOM table is an object of the biom package; the estimator reads it through
  \<^verbatim>\<open>isEmpty\<close>, \<^verbatim>\<open>sum(axis='sample')\<close> and \<^verbatim>\<open>iterSampleData\<close> only. It is taken here as the
  list of its sample columns, each the list of that sample's counts per observation. The
  counts are integers, so \<^verbatim>\<open>int(e)\<close> on a column total is the identity.
\<close>

type_synonym biom_table = "int list list"

text \<open>
  Modelled from the spec: \<^verbatim>\<open>biom_table.isEmpty()\<close> belongs to the biom package and is not
  part of the source; the specification's EmptyTableError is "table has zero samples".
\<close>

definition isEmpty :: "biom_table \<Rightarrow> bool" where
  "isEmpty t = (t = [])"

definition iterSampleData :: "biom_table \<Rightarrow> int list list" where
  "iterSampleData t = t"

record ObservationRichnessEstimator =
  biom_table :: biom_table
  FullRichnessEstimator :: full_richness_estimator
  PointEstimator :: point_estimator

definition getTotalIndividualCounts :: "biom_table \<Rightarrow> int list" where
  "getTotalIndividualCounts t = map sum_list (iterSampleData t)"

definition getObservationCounts :: "biom_table \<Rightarrow> int list" where
  "getObservationCounts t =
     map (\<lambda>e. int (length (filter (\<lambda>c. c > 0) e))) (iterSampleData t)"

text \<open>
  The body of the loop of \<^verbatim>\<open>getAbundanceFrequencyCounts\<close> for one sample: entry \<open>i - 1\<close>
  is \<^verbatim>\<open>(samp_data == i).sum(0)\<close>, for \<open>i\<close> in \<^verbatim>\<open>range(1, num_individuals + 1)\<close>.
\<close>

definition samp_abundance_freq_count :: "int list \<Rightarrow> int \<Rightarrow> int list" where
  "samp_abundance_freq_count samp_data num_individuals =
     map (\<lambda>i. int (length (filter (\<lambda>c. c = i) samp_data))) [1..num_individuals]"

definition getAbundanceFrequencyCounts :: "biom_table \<Rightarrow> int list list" where
  "getAbundanceFrequencyCounts t =
     map (\<lambda>(samp_data, num_individuals). samp_abundance_freq_count samp_data num_individuals)
         (zip (iterSampleData t) (getTotalIndividualCounts t))"

text \<open>The loop of the constructor over the total individual counts.\<close>

fun check_counts :: "int list \<Rightarrow> error + unit" where
  "check_counts [] = Inr ()"
| "check_counts (c # cs) = (if c < 1 then Inl EmptySampleError else check_counts cs)"

definition init ::
  "biom_table \<Rightarrow> full_richness_estimator \<Rightarrow> point_estimator
     \<Rightarrow> error + ObservationRichnessEstimator" where
  "init t fre pe =
     (if isEmpty t then Inl EmptyTableError
      else (case check_counts (getTotalIndividualCounts t) of
              Inl e \<Rightarrow> Inl e
            | Inr u \<Rightarrow>
                Inr \<lparr>biom_table = t, FullRichnessEstimator = fre, PointEstimator = pe\<rparr>))"

text \<open>
  \<^verbatim>\<open>_get_points_to_estimate\<close>. An argument that passes both checks is not \<open>None\<close>
  (\<open>None\<close> is below 1 and below \<open>start\<close>), so the last case, where Python would fail on
  \<^verbatim>\<open>stop + 1\<close> or on the step, is never reached.
\<close>

definition get_points_to_estimate ::
  "int \<Rightarrow> int option \<Rightarrow> int option \<Rightarrow> int \<Rightarrow> error + int list" where
  "get_points_to_estimate start stop step_size reference_individual_count =
     (if py2_lt (Some start) (Some 1) \<or> py2_lt step_size (Some 1) then Inl ValueError
      else if py2_lt stop (Some start) then Inl ValueError
      else (case (stop, step_size) of
              (Some b, Some s) \<Rightarrow>
                (let points = py_range start (b + 1) s
                 in if reference_individual_count \<in> set points then Inr points
                    else Inr (insort_right points reference_individual_count))
            | _ \<Rightarrow> Inl TypeError))"

text \<open>The inner loop of \<^verbatim>\<open>__call__\<close> over the sizes of one sample (\<open>sz\<close> is the source's \<^verbatim>\<open>size\<close>).\<close>

fun estimate_sizes ::
  "point_estimator \<Rightarrow> full_richness_estimator \<Rightarrow> int \<Rightarrow> int list \<Rightarrow> int \<Rightarrow> int list
     \<Rightarrow> error + (int \<times> real \<times> real option) list" where
  "estimate_sizes pe fre n abundance_freqs num_obs [] = Inr []"
| "estimate_sizes pe fre n abundance_freqs num_obs (sz # sizes) =
     (case estimateExpectedObservationCount pe sz n abundance_freqs num_obs fre of
        Inl e \<Rightarrow> Inl e
      | Inr exp_obs_count \<Rightarrow>
     (case estimateExpectedObservationCountStdErr pe sz n abundance_freqs num_obs
             exp_obs_count fre of
        Inl e \<Rightarrow> Inl e
      | Inr exp_obs_count_se \<Rightarrow>
     (case estimate_sizes pe fre n abundance_freqs num_obs sizes of
        Inl e \<Rightarrow> Inl e
      | Inr size_results \<Rightarrow> Inr ((sz, exp_obs_count, exp_obs_count_se) # size_results))))"

text \<open>The outer loop of \<^verbatim>\<open>__call__\<close> over the zipped per-sample data.\<close>

fun estimate_samples ::
  "point_estimator \<Rightarrow> full_richness_estimator \<Rightarrow> int \<Rightarrow> int option \<Rightarrow> int option
     \<Rightarrow> (int list \<times> int \<times> int \<times> int list) list
     \<Rightarrow> error + (int \<times> real \<times> real option) list list" where
  "estimate_samples pe fre start stop step_size [] = Inr []"
| "estimate_samples pe fre start stop step_size
     ((samp_data, num_obs, n, abundance_freqs) # rest) =
     (case get_points_to_estimate start stop step_size n of
        Inl e \<Rightarrow> Inl e
      | Inr sizes \<Rightarrow>
     (case estimate_sizes pe fre n abundance_freqs num_obs sizes of
        Inl e \<Rightarrow> Inl e
      | Inr size_results \<Rightarrow>
     (case estimate_samples pe fre start stop step_size rest of
        Inl e \<Rightarrow> Inl e
      | Inr per_sample_results \<Rightarrow> Inr (size_results # per_sample_results))))"

text \<open>
  \<^verbatim>\<open>__call__(self, start=1, stop=None, step_size=None)\<close>. The loop body filters
  \<^verbatim>\<open>samp_data\<close> to its positive entries and does not use it afterwards. The arithmetic
  is that of Python numbers and exact: with the numpy scalars of a BIOM table, a division
  by zero gives nan in the returned curve where this model gives \<open>Inl ZeroDivisionError\<close>,
  and a radicand that rounding takes below 0 gives nan where this model has the exact root.
\<close>

definition call ::
  "ObservationRichnessEstimator \<Rightarrow> int \<Rightarrow> int option \<Rightarrow> int option
     \<Rightarrow> error + (int \<times> real \<times> real option) list list" where
  "call self start stop step_size =
     estimate_samples (PointEstimator self) (FullRichnessEstimator self) start stop step_size
       (zip (iterSampleData (biom_table self))
          (zip (getObservationCounts (biom_table self))
             (zip (getTotalIndividualCounts (biom_table self))
                  (getAbundanceFrequencyCounts (biom_table self)))))"

subsection \<open>Closed forms used in the proofs\<close>

text \<open>
  The value of the interpolation weight as a ratio of binomial coefficients,
  \<open>C(n - m, k) / C(n, k)\<close>; \<open>calculate_alpha_km\<close> is shown below to return it.
\<close>

definition alpha_val :: "int \<Rightarrow> int \<Rightarrow> int \<Rightarrow> real" where
  "alpha_val n k m = real (nat (n - m) choose nat k) / real (nat n choose nat k)"

text \<open>The value of the Chao1 estimate on a vector with non-negative \<open>f1\<close> and \<open>f2\<close>.\<close>

definition chao1_val :: "int list \<Rightarrow> real" where
  "chao1_val fk = (if fk ! 1 > 0 then real_of_int ((fk ! 0) ^ 2) / real_of_int (2 * fk ! 1)
                else real_of_int (fk ! 0 * (fk ! 0 - 1)) / 2)"

section \<open>Properties of the primitives\<close>

lemma py_index_nth:
  "0 \<le> i \<Longrightarrow> i < int (length xs) \<Longrightarrow> py_index xs i = Inr (xs ! nat i)"
  by (simp add: py_index_def)

lemma py_index_no_ValueError: "py_index xs i \<noteq> Inl ValueError"
  by (simp add: py_index_def)

lemma py_truediv_no_ValueError: "py_truediv a b \<noteq> Inl ValueError"
  by (simp add: py_truediv_def)

lemma choose_mono_upper: "a \<le> b \<Longrightarrow> a choose k \<le> b choose k"
proof (induction b arbitrary: a k)
  case 0
  then show ?case by simp
next
  case (Suc b)
  show ?case
  proof (cases "a = Suc b")
    case True
    then show ?thesis by simp
  next
    case False
    with Suc.prems have ab: "a \<le> b" by simp
    show ?thesis
    proof (cases k)
      case 0
      then show ?thesis by simp
    next
      case (Suc j)
      have "a choose Suc j \<le> b choose Suc j" using Suc.IH [OF ab] .
      then show ?thesis using Suc by simp
    qed
  qed
qed

section \<open>The interpolation weight\<close>

lemma fact_ratio_choose:
  assumes "K + M \<le> N"
  shows "real (fact (N - K) * fact (N - M)) / real (fact N * fact (N - K - M))
         = real ((N - M) choose K) / real (N choose K)"
proof -
  have k: "K \<le> N - M" and k': "K \<le> N" using assms by simp_all
  have e: "N - M - K = N - K - M" by simp
  show ?thesis
    unfolding binomial_fact [OF k, where 'a = real] binomial_fact [OF k', where 'a = real] e
    by (simp add: field_simps)
qed

lemma calculate_alpha_km_closed:
  assumes "1 \<le> k" "k \<le> n" "0 \<le> m" "m \<le> n"
  shows "calculate_alpha_km n k m = Inr (alpha_val n k m)"
proof (cases "k \<le> n - m")
  case True
  have nat_eqs: "nat (n - k) = nat n - nat k" "nat (n - m) = nat n - nat m"
    "nat (n - k - m) = nat n - nat k - nat m"
    using assms True by simp_all
  have le: "nat k + nat m \<le> nat n" using assms True by simp
  show ?thesis
    using assms True fact_ratio_choose [OF le]
    by (simp add: calculate_alpha_km_def factorial_def py_truediv_def nat_eqs alpha_val_def
        del: of_nat_mult of_nat_fact)
next
  case False
  then have "nat (n - m) < nat k" using assms by simp
  then show ?thesis using False by (simp add: calculate_alpha_km_def alpha_val_def)
qed

lemma alpha_val_nonneg: "0 \<le> alpha_val n k m"
  by (simp add: alpha_val_def)

lemma alpha_val_le_1:
  assumes "k \<le> n" "0 \<le> m"
  shows "alpha_val n k m \<le> 1"
proof -
  have pos: "0 < nat n choose nat k" using assms by simp
  have "nat (n - m) choose nat k \<le> nat n choose nat k"
    using assms by (intro choose_mono_upper) simp
  then show ?thesis using pos by (simp add: alpha_val_def)
qed

lemma alpha_val_antimono:
  assumes "m \<le> m'"
  shows "alpha_val n k m' \<le> alpha_val n k m"
proof -
  have "nat (n - m') choose nat k \<le> nat (n - m) choose nat k"
    using assms by (intro choose_mono_upper) simp
  then show ?thesis by (simp add: alpha_val_def divide_right_mono)
qed

lemma accumulate_alpha_closed:
  assumes "\<forall>k\<in>set ks. 1 \<le> k \<and> k \<le> n" "0 \<le> m" "m \<le> n" "n \<le> int (length fk)"
  shows "accumulate_alpha n m fk ks acc =
           Inr (acc + (\<Sum>k\<leftarrow>ks. alpha_val n k m * real_of_int (fk ! nat (k - 1))))"
  using assms
proof (induction ks arbitrary: acc)
  case Nil
  then show ?case by simp
next
  case (Cons k ks)
  then have k: "1 \<le> k" "k \<le> n" by simp_all
  have a: "calculate_alpha_km n k m = Inr (alpha_val n k m)"
    using k Cons.prems by (intro calculate_alpha_km_closed) simp_all
  have i: "py_index fk (k - 1) = Inr (fk ! nat (k - 1))"
    using k Cons.prems by (intro py_index_nth) simp_all
  show ?case using Cons by (simp add: a i algebra_simps)
qed

lemma upto_bounds: "\<forall>k\<in>set [1..n]. 1 \<le> k \<and> k \<le> n"
  by simp

lemma expected_interpolation:
  assumes "0 \<le> m" "m \<le> n" "n \<le> int (length fk)"
  shows "Multinomial_estimateExpectedObservationCount m n fk s_obs fre =
           Inr (real_of_int s_obs
                - (\<Sum>k\<leftarrow>[1..n]. alpha_val n k m * real_of_int (fk ! nat (k - 1))))"
  using assms accumulate_alpha_closed [OF upto_bounds assms, of 0]
  by (simp add: Multinomial_estimateExpectedObservationCount_def)

section \<open>The Chao1 estimate\<close>

lemma Chao1_closed:
  assumes "2 \<le> length fk" "0 \<le> fk ! 0" "0 \<le> fk ! 1"
  shows "Chao1_estimateUnobservedObservationCount fk =
           Inr (if fk ! 1 > 0 then real_of_int ((fk ! 0) ^ 2) / real_of_int (2 * fk ! 1)
                else real_of_int (fk ! 0 * (fk ! 0 - 1)) / 2)"
proof -
  have len: "(0::int) < int (length fk)" "(1::int) < int (length fk)"
    using assms(1) by linarith+
  have i0: "py_index fk 0 = Inr (fk ! 0)" using py_index_nth [of 0 fk] len by simp
  have i1: "py_index fk 1 = Inr (fk ! 1)" using py_index_nth [of 1 fk] len by simp
  show ?thesis
    using assms(2,3)
    by (simp add: Chao1_estimateUnobservedObservationCount_def i0 i1 py_truediv_def)
qed

section \<open>Abundance frequency counts of a sample\<close>

lemma weighted_count_sum:
  fixes samp :: "int list"
  assumes "\<forall>c\<in>set samp. 0 \<le> c \<and> c \<le> N"
  shows "(\<Sum>k = 1..N. k * int (length (filter (\<lambda>c. c = k) samp))) = sum_list samp"
  using assms
proof (induction samp)
  case Nil
  then show ?case by simp
next
  case (Cons x xs)
  then have x: "0 \<le> x" "x \<le> N" by simp_all
  have ih: "(\<Sum>k = 1..N. k * int (length (filter (\<lambda>c. c = k) xs))) = sum_list xs"
    using Cons by simp
  have "(\<Sum>k = 1..N. k * int (length (filter (\<lambda>c. c = k) (x # xs))))
        = (\<Sum>k = 1..N. (if k = x then k else 0) + k * int (length (filter (\<lambda>c. c = k) xs)))"
    by (intro sum.cong refl) (auto simp: algebra_simps)
  also have "\<dots> = (\<Sum>k = 1..N. if k = x then k else 0) + sum_list xs"
    by (simp add: sum.distrib ih)
  also have "(\<Sum>k = 1..N. if k = x then k else 0) = (if x \<in> {1..N} then x else 0)"
    by (rule sum.delta) simp
  also have "\<dots> = x" using x by auto
  finally show ?case by simp
qed

lemma count_sum:
  fixes samp :: "int list"
  assumes "\<forall>c\<in>set samp. c \<le> N"
  shows "(\<Sum>k = 1..N. int (length (filter (\<lambda>c. c = k) samp)))
           = int (length (filter (\<lambda>c. c > 0) samp))"
  using assms
proof (induction samp)
  case Nil
  then show ?case by simp
next
  case (Cons x xs)
  then have x: "x \<le> N" by simp
  have ih: "(\<Sum>k = 1..N. int (length (filter (\<lambda>c. c = k) xs)))
              = int (length (filter (\<lambda>c. c > 0) xs))"
    using Cons by simp
  have "(\<Sum>k = 1..N. int (length (filter (\<lambda>c. c = k) (x # xs))))
        = (\<Sum>k = 1..N. (if k = x then 1 else 0) + int (length (filter (\<lambda>c. c = k) xs)))"
    by (intro sum.cong refl) auto
  also have "\<dots> = (\<Sum>k = 1..N. if k = x then 1 else 0)
                     + int (length (filter (\<lambda>c. c > 0) xs))"
    by (simp add: sum.distrib ih)
  also have "(\<Sum>k = 1..N. if k = x then 1 else (0::int)) = (if x \<in> {1..N} then 1 else 0)"
    by (rule sum.delta) simp
  also have "\<dots> = (if 0 < x then 1 else 0)" using x by auto
  finally show ?case by simp
qed

lemma member_le_sum_list_int:
  fixes xs :: "int list"
  assumes "\<forall>c\<in>set xs. 0 \<le> c" "x \<in> set xs"
  shows "x \<le> sum_list xs"
  using assms
proof (induction xs)
  case Nil
  then show ?case by simp
next
  case (Cons y ys)
  have nn: "0 \<le> sum_list ys" using Cons.prems by (intro sum_list_nonneg) simp
  show ?case
  proof (cases "x = y")
    case True
    then show ?thesis using nn by simp
  next
    case False
    then have "x \<le> sum_list ys" using Cons by simp
    moreover have "0 \<le> y" using Cons.prems by simp
    ultimately show ?thesis by simp
  qed
qed

lemma getAbundanceFrequencyCounts_nth:
  "i < length t \<Longrightarrow>
     getAbundanceFrequencyCounts t ! i = samp_abundance_freq_count (t ! i) (sum_list (t ! i))"
  by (simp add: getAbundanceFrequencyCounts_def getTotalIndividualCounts_def iterSampleData_def)

lemma getTotalIndividualCounts_nth:
  "i < length t \<Longrightarrow> getTotalIndividualCounts t ! i = sum_list (t ! i)"
  by (simp add: getTotalIndividualCounts_def iterSampleData_def)

lemma getObservationCounts_nth:
  "i < length t \<Longrightarrow> getObservationCounts t ! i = int (length (filter (\<lambda>c. c > 0) (t ! i)))"
  by (simp add: getObservationCounts_def iterSampleData_def)

lemma samp_abundance_freq_count_length:
  "length (samp_abundance_freq_count samp n) = nat n"
  by (simp add: samp_abundance_freq_count_def)

lemma samp_abundance_freq_count_nth:
  assumes "1 \<le> k" "k \<le> n"
  shows "samp_abundance_freq_count samp n ! nat (k - 1) = int (length (filter (\<lambda>c. c = k) samp))"
proof -
  have "nat (k - 1) < length [1..n]" using assms by simp
  moreover have "[1..n] ! nat (k - 1) = k"
    using assms by (simp add: nth_upto)
  ultimately show ?thesis by (simp add: samp_abundance_freq_count_def del: length_upto)
qed

lemma samp_abundance_freq_count_nonneg:
  "\<forall>f\<in>set (samp_abundance_freq_count samp n). 0 \<le> f"
  by (auto simp: samp_abundance_freq_count_def)

lemma samp_abundance_freq_count_sums:
  assumes "\<forall>c\<in>set samp. 0 \<le> c"
  shows "(\<Sum>k = 1..sum_list samp.
            k * samp_abundance_freq_count samp (sum_list samp) ! nat (k - 1)) = sum_list samp"
    and "(\<Sum>k = 1..sum_list samp. samp_abundance_freq_count samp (sum_list samp) ! nat (k - 1))
           = int (length (filter (\<lambda>c. c > 0) samp))"
proof -
  let ?n = "sum_list samp"
  have bnd: "\<forall>c\<in>set samp. 0 \<le> c \<and> c \<le> ?n"
    using assms member_le_sum_list_int [OF assms] by simp
  have "(\<Sum>k = 1..?n. k * samp_abundance_freq_count samp ?n ! nat (k - 1))
        = (\<Sum>k = 1..?n. k * int (length (filter (\<lambda>c. c = k) samp)))"
    by (intro sum.cong refl) (simp add: samp_abundance_freq_count_nth)
  then show "(\<Sum>k = 1..?n. k * samp_abundance_freq_count samp ?n ! nat (k - 1)) = ?n"
    using weighted_count_sum [OF bnd] by simp
  have "(\<Sum>k = 1..?n. samp_abundance_freq_count samp ?n ! nat (k - 1))
        = (\<Sum>k = 1..?n. int (length (filter (\<lambda>c. c = k) samp)))"
    by (intro sum.cong refl) (simp add: samp_abundance_freq_count_nth)
  then show "(\<Sum>k = 1..?n. samp_abundance_freq_count samp ?n ! nat (k - 1))
           = int (length (filter (\<lambda>c. c > 0) samp))"
    using count_sum [of samp ?n] bnd by simp
qed

section \<open>Bounds of the interpolation sum\<close>

lemma sum_list_upto_conv_sum:
  fixes f :: "int \<Rightarrow> 'a::comm_monoid_add"
  shows "(\<Sum>k\<leftarrow>[1..n]. f k) = (\<Sum>k = 1..n. f k)"
  by (simp add: sum_list_distinct_conv_sum_set)

lemma weighted_sum_bounds:
  assumes "\<forall>k\<in>{1..n}. 0 \<le> fk ! nat (k - 1)" "0 \<le> m"
  shows "0 \<le> (\<Sum>k\<leftarrow>[1..n]. alpha_val n k m * real_of_int (fk ! nat (k - 1)))"
    and "(\<Sum>k\<leftarrow>[1..n]. alpha_val n k m * real_of_int (fk ! nat (k - 1)))
           \<le> real_of_int (\<Sum>k = 1..n. fk ! nat (k - 1))"
proof -
  show "0 \<le> (\<Sum>k\<leftarrow>[1..n]. alpha_val n k m * real_of_int (fk ! nat (k - 1)))"
    using assms by (intro sum_list_nonneg) (auto simp: alpha_val_nonneg)
  have "(\<Sum>k\<leftarrow>[1..n]. alpha_val n k m * real_of_int (fk ! nat (k - 1)))
          \<le> (\<Sum>k\<leftarrow>[1..n]. real_of_int (fk ! nat (k - 1)))"
  proof (rule sum_list_mono)
    fix k assume "k \<in> set [1..n]"
    then have k: "1 \<le> k" "k \<le> n" by simp_all
    then have f: "0 \<le> real_of_int (fk ! nat (k - 1))" using assms by simp
    have "alpha_val n k m \<le> 1" using k assms by (intro alpha_val_le_1) simp_all
    then show "alpha_val n k m * real_of_int (fk ! nat (k - 1)) \<le> real_of_int (fk ! nat (k - 1))"
      using mult_right_mono [of "alpha_val n k m" 1 "real_of_int (fk ! nat (k - 1))"] f by simp
  qed
  also have "\<dots> = real_of_int (\<Sum>k = 1..n. fk ! nat (k - 1))"
    by (simp add: sum_list_upto_conv_sum)
  finally show "(\<Sum>k\<leftarrow>[1..n]. alpha_val n k m * real_of_int (fk ! nat (k - 1)))
           \<le> real_of_int (\<Sum>k = 1..n. fk ! nat (k - 1))" .
qed

section \<open>The extrapolation formula with the Chao1 estimate\<close>

lemma chao1_ratio_bounds:
  fixes f1 f2 n :: int
  assumes "0 \<le> f1" "0 \<le> f2" "f1 + 2 * f2 \<le> n"
  defines "f_hat \<equiv> (if f2 > 0 then real_of_int (f1 ^ 2) / real_of_int (2 * f2)
                else real_of_int (f1 * (f1 - 1)) / 2)"
  assumes nz: "real_of_int n * f_hat \<noteq> 0"
  shows "0 < f_hat" and "0 \<le> real_of_int f1 / (real_of_int n * f_hat)"
    and "real_of_int f1 / (real_of_int n * f_hat) \<le> 1"
proof -
  have n0: "n \<noteq> 0" and fh0: "f_hat \<noteq> 0" using nz by auto
  have npos: "0 < n" using assms(1-3) n0 by linarith
  have fh_pos: "0 < f_hat \<and> real_of_int f1 \<le> real_of_int n * f_hat"
  proof (cases "f2 > 0")
    case True
    then have fh: "f_hat = real_of_int (f1 ^ 2) / real_of_int (2 * f2)" by (simp add: f_hat_def)
    have f1pos: "1 \<le> f1" using fh0 fh assms(1) by (cases "f1 = 0") auto
    have pos: "0 < f_hat" using fh True f1pos by simp
    have "2 * f2 \<le> n * f1"
    proof -
      have "2 * f2 \<le> n * 1" using assms by linarith
      also have "\<dots> \<le> n * f1" using npos f1pos by (intro mult_left_mono) simp_all
      finally show ?thesis .
    qed
    then have "f1 * (2 * f2) \<le> f1 * (n * f1)" using assms(1) by (intro mult_left_mono) simp_all
    then have "f1 * (2 * f2) \<le> n * f1 ^ 2" by (simp add: power2_eq_square algebra_simps)
    then have "real_of_int (f1 * (2 * f2)) \<le> real_of_int (n * f1 ^ 2)" by (simp only: of_int_le_iff)
    then have "real_of_int f1 \<le> real_of_int n * f_hat"
      using True by (simp add: fh field_simps)
    with pos show ?thesis by simp
  next
    case False
    then have fh: "f_hat = real_of_int (f1 * (f1 - 1)) / 2" by (simp add: f_hat_def)
    have f1ge: "2 \<le> f1"
    proof (rule ccontr)
      assume "\<not> 2 \<le> f1"
      then have "f1 = 0 \<or> f1 = 1" using assms(1) by linarith
      then show False using fh0 fh by auto
    qed
    have "0 < f1 * (f1 - 1)" using f1ge by (intro mult_pos_pos) linarith+
    then have "0 < real_of_int (f1 * (f1 - 1))" by (simp only: of_int_0_less_iff)
    then have pos: "0 < f_hat" unfolding fh by simp
    have "2 * 1 \<le> n * (f1 - 1)"
      using assms f1ge by (intro mult_mono) linarith+
    then have "f1 * 2 \<le> f1 * (n * (f1 - 1))" using assms(1) by (intro mult_left_mono) simp_all
    then have "real_of_int (f1 * 2) \<le> real_of_int (f1 * (n * (f1 - 1)))" by (simp only: of_int_le_iff)
    then have "real_of_int f1 \<le> real_of_int n * f_hat"
      by (simp add: fh field_simps)
    with pos show ?thesis by simp
  qed
  then show "0 < f_hat" by simp
  have d: "0 < real_of_int n * f_hat" using npos fh_pos by simp
  show "0 \<le> real_of_int f1 / (real_of_int n * f_hat)" using assms(1) d by simp
  show "real_of_int f1 / (real_of_int n * f_hat) \<le> 1" using fh_pos d by simp
qed

lemma Chao1_Inr_length:
  assumes "Chao1_estimateUnobservedObservationCount fk = Inr x"
  shows "2 \<le> length fk"
proof (rule ccontr)
  assume "\<not> 2 \<le> length fk"
  then have "py_index fk 1 = Inl IndexError" by (simp add: py_index_def)
  then show False using assms
    by (simp add: Chao1_estimateUnobservedObservationCount_def split: sum.splits)
qed

lemma first_two_nonneg:
  fixes fk :: "int list"
  assumes "\<forall>f\<in>set fk. 0 \<le> f" "2 \<le> length fk"
  shows "0 \<le> fk ! 0" and "0 \<le> fk ! 1"
proof -
  have l: "0 < length fk" "1 < length fk" using assms(2) by linarith+
  have "fk ! 0 \<in> set fk" "fk ! 1 \<in> set fk"
    using nth_mem [OF l(1)] nth_mem [OF l(2)] by blast+
  then show "0 \<le> fk ! 0" and "0 \<le> fk ! 1" using assms(1) by blast+
qed

lemma first_two_le_total:
  assumes "\<forall>c\<in>set samp. 0 \<le> c" "2 \<le> sum_list samp"
  shows "samp_abundance_freq_count samp (sum_list samp) ! 0
         + 2 * samp_abundance_freq_count samp (sum_list samp) ! 1 \<le> sum_list samp"
proof -
  let ?n = "sum_list samp"
  let ?fk = "samp_abundance_freq_count samp ?n"
  let ?g = "\<lambda>k. k * ?fk ! nat (k - 1)"
  have nonneg: "0 \<le> ?fk ! nat (k - 1)" if "1 \<le> k" "k \<le> ?n" for k
    using that by (simp add: samp_abundance_freq_count_nth)
  have "sum ?g {1, 2} \<le> sum ?g {1..?n}"
  proof (rule sum_mono2)
    show "finite {1..?n}" by simp
    show "{1, 2} \<subseteq> {1..?n}" using assms(2) by auto
    show "0 \<le> ?g b" if "b \<in> {1..?n} - {1, 2}" for b
      using that nonneg [of b] by simp
  qed
  moreover have "sum ?g {1, 2} = ?fk ! 0 + 2 * ?fk ! 1" by simp
  moreover have "sum ?g {1..?n} = ?n" using assms(1) by (rule samp_abundance_freq_count_sums)
  ultimately show ?thesis by simp
qed

lemma expected_extrapolation:
  assumes "n < m"
    and "Multinomial_estimateExpectedObservationCount m n fk s_obs Chao1FullRichnessEstimator
           = Inr b"
    and "\<forall>f\<in>set fk. 0 \<le> f"
  shows "2 \<le> length fk"
    and "real_of_int n * chao1_val fk \<noteq> 0"
    and "b = real_of_int s_obs + chao1_val fk
               * (1 - (1 - real_of_int (fk ! 0) / (real_of_int n * chao1_val fk)) ^ nat (m - n))"
proof -
  obtain f_hat where fh: "Chao1_estimateUnobservedObservationCount fk = Inr f_hat"
    using assms(1,2)
    by (auto simp: Multinomial_estimateExpectedObservationCount_def Chao1FullRichnessEstimator_def
        split: sum.splits)
  show len: "2 \<le> length fk" using fh by (rule Chao1_Inr_length)
  have nn: "0 \<le> fk ! 0" "0 \<le> fk ! 1" using assms(3) len by (rule first_two_nonneg)+
  have fh_val: "f_hat = chao1_val fk"
    using Chao1_closed [OF len nn] fh by (simp add: chao1_val_def)
  have "(0::int) < int (length fk)" using len by linarith
  then have i0: "py_index fk 0 = Inr (fk ! 0)" using py_index_nth [of 0 fk] by simp
  have rest: "(case py_truediv (real_of_int (fk ! 0)) (real_of_int n * chao1_val fk) of
                 Inl e \<Rightarrow> Inl e
               | Inr q \<Rightarrow> Inr (real_of_int s_obs + chao1_val fk * (1 - (1 - q) ^ nat (m - n))))
              = Inr b"
    using assms(1,2) fh
    by (simp add: Multinomial_estimateExpectedObservationCount_def Chao1FullRichnessEstimator_def
        i0 fh_val Let_def)
  show nz: "real_of_int n * chao1_val fk \<noteq> 0"
  proof
    assume "real_of_int n * chao1_val fk = 0"
    then have "py_truediv (real_of_int (fk ! 0)) (real_of_int n * chao1_val fk)
                 = Inl ZeroDivisionError"
      by (simp add: py_truediv_def)
    then show False using rest by simp
  qed
  then have "py_truediv (real_of_int (fk ! 0)) (real_of_int n * chao1_val fk)
               = Inr (real_of_int (fk ! 0) / (real_of_int n * chao1_val fk))"
    by (simp add: py_truediv_def)
  then show "b = real_of_int s_obs + chao1_val fk
               * (1 - (1 - real_of_int (fk ! 0) / (real_of_int n * chao1_val fk)) ^ nat (m - n))"
    using rest by simp
qed

section \<open>Factorials and the product of ratios\<close>

text \<open>Recording the calls does not change the result, whatever the arguments and the log.\<close>

lemma calculate_alpha_km_logged_result:
  "snd (calculate_alpha_km_logged n k m log0) = calculate_alpha_km n k m"
  by (simp add: calculate_alpha_km_logged_def calculate_alpha_km_def factorial_logged_def
      split: sum.splits)

text \<open>The log is only ever extended, by the arguments of the calls made.\<close>

lemma calculate_alpha_km_logged_extends:
  "\<exists>calls. fst (calculate_alpha_km_logged n k m log0) = log0 @ calls
           \<and> set calls \<subseteq> {n - k, n - m, n, n - k - m}"
  by (simp add: calculate_alpha_km_logged_def factorial_logged_def split: sum.splits)

lemma fact_pred_real:
  assumes "0 < a"
  shows "(fact a :: real) = real a * fact (a - 1)"
proof -
  have "a = Suc (a - 1)" using assms by simp
  then have "(fact a :: real) = fact (Suc (a - 1))" by simp
  then show ?thesis using assms by (simp only: fact_Suc) simp
qed

lemma cancel_ratio:
  fixes A B C D x y :: real
  assumes "x \<noteq> 0" "y \<noteq> 0"
  shows "(A * (x * B)) / (C * (y * D)) * (y / x) = (A * B) / (C * D)"
  using assms by simp

lemma prod_ratio_fact:
  assumes "K + M \<le> N"
  shows "(\<Prod>i = 0..<M. (real N - real K - real i) / (real N - real i))
         = real (fact (N - K) * fact (N - M)) / real (fact N * fact (N - K - M))"
  using assms
proof (induction M)
  case 0
  then show ?case by simp
next
  case (Suc M)
  then have le: "K + M \<le> N" and lt: "K + M < N" by simp_all
  have f1: "(fact (N - M) :: real) = real (N - M) * fact (N - Suc M)"
    using fact_pred_real [of "N - M"] lt by simp
  have f2: "(fact (N - K - M) :: real) = real (N - K - M) * fact (N - K - Suc M)"
    using fact_pred_real [of "N - K - M"] lt by simp
  have d1: "real (N - M) = real N - real M" using lt by (simp add: of_nat_diff)
  have d2: "real (N - K - M) = real N - real K - real M" using lt by (simp add: of_nat_diff)
  have p1: "real N - real M > 0" using lt by simp
  have p2: "real N - real K - real M > 0" using lt d2 by linarith
  have "(\<Prod>i = 0..<Suc M. (real N - real K - real i) / (real N - real i))
        = (fact (N - K) * fact (N - M)) / (fact N * fact (N - K - M))
          * ((real N - real K - real M) / (real N - real M))"
    using Suc.IH [OF le] by simp
  also have "\<dots> = (fact (N - K) * fact (N - Suc M)) / (fact N * fact (N - K - Suc M))"
    unfolding f1 f2 d1 d2 using p1 p2 by (intro cancel_ratio) simp_all
  finally show ?case by simp
qed

section \<open>Where ValueError can come from\<close>

lemma bind_no_ValueError:
  assumes "x \<noteq> Inl ValueError" "\<And>v. x = Inr v \<Longrightarrow> f v \<noteq> Inl ValueError"
  shows "(case x of Inl e \<Rightarrow> Inl e | Inr v \<Rightarrow> f v) \<noteq> Inl ValueError"
  using assms by (cases x) auto

lemma calculate_alpha_km_no_ValueError:
  assumes "1 \<le> k" "k \<le> n"
  shows "calculate_alpha_km n k m \<noteq> Inl ValueError"
  using assms
  by (simp add: calculate_alpha_km_def factorial_def py_truediv_def)

lemma accumulate_alpha_no_ValueError:
  assumes "\<forall>k\<in>set ks. 1 \<le> k \<and> k \<le> n"
  shows "accumulate_alpha n m fk ks acc \<noteq> Inl ValueError"
  using assms
proof (induction ks arbitrary: acc)
  case Nil
  then show ?case by simp
next
  case (Cons k ks)
  then have k: "1 \<le> k" "k \<le> n" by simp_all
  show ?case
    unfolding accumulate_alpha.simps
    by (intro bind_no_ValueError calculate_alpha_km_no_ValueError k py_index_no_ValueError
        Cons.IH) (use Cons.prems in simp)
qed

lemma accumulate_variance_no_ValueError:
  assumes "\<forall>k\<in>set ks. 1 \<le> k \<and> k \<le> n"
  shows "accumulate_variance n m fk ks acc \<noteq> Inl ValueError"
  using assms
proof (induction ks arbitrary: acc)
  case Nil
  then show ?case by simp
next
  case (Cons k ks)
  then have k: "1 \<le> k" "k \<le> n" by simp_all
  show ?case
    unfolding accumulate_variance.simps
    by (intro bind_no_ValueError calculate_alpha_km_no_ValueError k py_index_no_ValueError
        Cons.IH) (use Cons.prems in simp)
qed

lemma calculate_covariance_no_ValueError:
  "calculate_covariance f_i f_j s_obs f_hat same_var \<noteq> Inl ValueError"
  by (simp add: calculate_covariance_def py_truediv_def)

lemma accumulate_covariance_no_ValueError:
  "accumulate_covariance fk s_obs f_hat ps acc \<noteq> Inl ValueError"
proof (induction ps arbitrary: acc)
  case Nil
  then show ?case by simp
next
  case (Cons p ps)
  obtain i j where p: "p = (i, j)" by (cases p)
  show ?case
    unfolding p accumulate_covariance.simps
    by (intro bind_no_ValueError py_index_no_ValueError calculate_covariance_no_ValueError
        Cons.IH)
qed

lemma py_index_Inr_mem:
  assumes "py_index xs i = Inr v"
  shows "v \<in> set xs"
  using assms by (auto simp: py_index_def split: if_splits)

lemma Chao1_no_ValueError:
  assumes "\<forall>f\<in>set fk. 0 \<le> f"
  shows "Chao1_estimateUnobservedObservationCount fk \<noteq> Inl ValueError"
proof -
  have "\<not> (f1 < 0 \<or> f2 < 0)" if "py_index fk 0 = Inr f1" "py_index fk 1 = Inr f2" for f1 f2
    using that [THEN py_index_Inr_mem] assms by auto
  then show ?thesis
    unfolding Chao1_estimateUnobservedObservationCount_def
    by (intro bind_no_ValueError py_index_no_ValueError)
       (simp add: py_truediv_def)
qed

lemma expected_no_ValueError:
  assumes "\<forall>f\<in>set fk. 0 \<le> f"
  shows "Multinomial_estimateExpectedObservationCount m n fk s_obs Chao1FullRichnessEstimator
           \<noteq> Inl ValueError"
proof (cases "m \<le> n")
  case True
  have "accumulate_alpha n m fk [1..n] 0 \<noteq> Inl ValueError"
    by (rule accumulate_alpha_no_ValueError) simp
  then have "(case accumulate_alpha n m fk [1..n] 0 of
                Inl e \<Rightarrow> Inl e
              | Inr accumulation \<Rightarrow> Inr (of_int s_obs - accumulation))
             \<noteq> Inl ValueError"
    by (intro bind_no_ValueError) simp_all
  then show ?thesis
    using True by (simp add: Multinomial_estimateExpectedObservationCount_def)
next
  case False
  have "(case Chao1_estimateUnobservedObservationCount fk of
           Inl e \<Rightarrow> Inl e
         | Inr f_hat \<Rightarrow>
        (case py_index fk 0 of
           Inl e \<Rightarrow> Inl e
         | Inr f1 \<Rightarrow>
        (case py_truediv (of_int f1) (of_int n * f_hat) of
           Inl e \<Rightarrow> Inl e
         | Inr q \<Rightarrow> Inr (of_int s_obs + f_hat * (1 - (1 - q) ^ nat (m - n))))))
        \<noteq> Inl ValueError"
    by (intro bind_no_ValueError Chao1_no_ValueError assms py_index_no_ValueError
        py_truediv_no_ValueError) simp
  then show ?thesis
    using False
    by (simp add: Multinomial_estimateExpectedObservationCount_def Chao1FullRichnessEstimator_def)
qed

lemma stderr_no_ValueError:
  assumes "\<forall>f\<in>set fk. 0 \<le> f"
  shows "Multinomial_estimateExpectedObservationCountStdErr m n fk s_obs s_m
           Chao1FullRichnessEstimator \<noteq> Inl ValueError"
proof (cases "m \<le> n")
  case True
  have fr: "estimateFullRichness Chao1FullRichnessEstimator fk s_obs \<noteq> Inl ValueError"
    unfolding estimateFullRichness_def Chao1FullRichnessEstimator_def
    by (intro bind_no_ValueError) (simp_all add: Chao1_no_ValueError assms)
  have "(case estimateFullRichness Chao1FullRichnessEstimator fk s_obs of
           Inl e \<Rightarrow> Inl e
         | Inr s_est \<Rightarrow>
        (case accumulate_variance n m fk [1..n] 0 of
           Inl e \<Rightarrow> Inl e
         | Inr accumulation \<Rightarrow>
        (case py_truediv (s_m ^ 2) s_est of
           Inl e \<Rightarrow> Inl e
         | Inr q \<Rightarrow> Inr (np_sqrt (accumulation - q)))))
        \<noteq> Inl ValueError"
    by (intro bind_no_ValueError fr accumulate_variance_no_ValueError py_truediv_no_ValueError)
       simp_all
  then show ?thesis
    using True by (simp add: Multinomial_estimateExpectedObservationCountStdErr_def)
next
  case False
  have "(case Chao1_estimateUnobservedObservationCount fk of
           Inl e \<Rightarrow> Inl e
         | Inr f_hat \<Rightarrow>
        (case accumulate_covariance fk s_obs f_hat (List.product [1..n] [1..n]) 0 of
           Inl e \<Rightarrow> Inl e
         | Inr accumulation \<Rightarrow> Inr (Some accumulation)))
        \<noteq> Inl ValueError"
    by (intro bind_no_ValueError Chao1_no_ValueError assms accumulate_covariance_no_ValueError)
       simp
  then show ?thesis
    using False
    by (simp add: Multinomial_estimateExpectedObservationCountStdErr_def
        Chao1FullRichnessEstimator_def)
qed

lemma estimate_sizes_no_ValueError:
  assumes "\<forall>f\<in>set fk. 0 \<le> f"
  shows "estimate_sizes MultinomialPointEstimator Chao1FullRichnessEstimator n fk num_obs sizes
           \<noteq> Inl ValueError"
proof (induction sizes)
  case Nil
  then show ?case by simp
next
  case (Cons sz sizes)
  show ?case
    unfolding estimate_sizes.simps
    by (intro bind_no_ValueError Cons.IH)
       (simp_all add: MultinomialPointEstimator_def expected_no_ValueError stderr_no_ValueError
          assms)
qed

lemma get_points_to_estimate_invalid:
  assumes "start < 1 \<or> py2_lt step_size (Some 1) \<or> py2_lt stop (Some start)"
  shows "get_points_to_estimate start stop step_size n = Inl ValueError"
  using assms by (auto simp: get_points_to_estimate_def)

lemma py2_lt_Some:
  assumes "\<not> py2_lt x (Some a)"
  shows "\<exists>b. x = Some b \<and> a \<le> b"
  using assms by (cases x) auto

lemma get_points_to_estimate_valid:
  assumes "\<not> (start < 1 \<or> step_size < 1 \<or> stop < start)"
  shows "get_points_to_estimate start (Some stop) (Some step_size) n
           = Inr (if n \<in> set (py_range start (stop + 1) step_size)
                  then py_range start (stop + 1) step_size
                  else insort_right (py_range start (stop + 1) step_size) n)"
  using assms by (auto simp: get_points_to_estimate_def Let_def)

lemma estimate_samples_no_ValueError:
  assumes "\<not> (start < 1 \<or> step_size < 1 \<or> stop < start)"
    and "\<forall>z\<in>set zs. \<forall>f\<in>set (snd (snd (snd z))). 0 \<le> f"
  shows "estimate_samples MultinomialPointEstimator Chao1FullRichnessEstimator start (Some stop)
           (Some step_size) zs \<noteq> Inl ValueError"
  using assms(2)
proof (induction zs)
  case Nil
  then show ?case by simp
next
  case (Cons z zs)
  obtain samp_data num_obs n fk where z: "z = (samp_data, num_obs, n, fk)" by (cases z)
  have fk: "\<forall>f\<in>set fk. 0 \<le> f" using Cons.prems z by simp
  have ih: "estimate_samples MultinomialPointEstimator Chao1FullRichnessEstimator start
              (Some stop) (Some step_size) zs \<noteq> Inl ValueError"
    using Cons by simp
  show ?case
    unfolding z estimate_samples.simps get_points_to_estimate_valid [OF assms(1)]
    by (intro bind_no_ValueError estimate_sizes_no_ValueError fk ih) simp_all
qed

lemma estimate_samples_invalid:
  assumes "start < 1 \<or> py2_lt step_size (Some 1) \<or> py2_lt stop (Some start)" "zs \<noteq> []"
  shows "estimate_samples pe fre start stop step_size zs = Inl ValueError"
proof -
  obtain samp_data num_obs n fk rest where zs: "zs = (samp_data, num_obs, n, fk) # rest"
    using assms(2) by (cases zs) auto
  show ?thesis
    unfolding zs estimate_samples.simps get_points_to_estimate_invalid [OF assms(1)] by simp
qed

lemma getAbundanceFrequencyCounts_nonneg:
  assumes "fk \<in> set (getAbundanceFrequencyCounts t)"
  shows "\<forall>f\<in>set fk. 0 \<le> f"
  using assms samp_abundance_freq_count_nonneg
  by (auto simp: getAbundanceFrequencyCounts_def)

lemma zipped_samples:
  "length (zip (iterSampleData t) (zip (getObservationCounts t)
             (zip (getTotalIndividualCounts t) (getAbundanceFrequencyCounts t)))) = length t"
  by (simp add: getObservationCounts_def getTotalIndividualCounts_def
      getAbundanceFrequencyCounts_def iterSampleData_def)

lemma zipped_samples_nonneg:
  assumes "z \<in> set (zip (iterSampleData t) (zip (getObservationCounts t)
             (zip (getTotalIndividualCounts t) (getAbundanceFrequencyCounts t))))"
  shows "\<forall>f\<in>set (snd (snd (snd z))). 0 \<le> f"
proof -
  obtain a b c d where z: "z = (a, b, c, d)" by (cases z)
  have "d \<in> set (getAbundanceFrequencyCounts t)"
    using assms unfolding z by (auto dest!: set_zip_rightD)
  then show ?thesis using getAbundanceFrequencyCounts_nonneg z by simp
qed

lemma init_Inr:
  assumes "init t fre pe = Inr self"
  shows "t \<noteq> []" and "self = \<lparr>biom_table = t, FullRichnessEstimator = fre, PointEstimator = pe\<rparr>"
  using assms by (auto simp: init_def isEmpty_def split: if_splits sum.splits)

section \<open>The anchor point of a call that returns\<close>

lemma set_insort_right: "set (insort_right xs x) = insert x (set xs)"
  by (induction xs) auto

lemma get_points_to_estimate_contains_reference:
  assumes "get_points_to_estimate start stop step_size n = Inr sizes"
  shows "n \<in> set sizes"
  using assms
  by (auto simp: get_points_to_estimate_def Let_def set_insort_right
      split: if_splits option.splits)

lemma alpha_val_at_n:
  assumes "1 \<le> k"
  shows "alpha_val n k n = 0"
  using assms by (simp add: alpha_val_def)

lemma expected_at_n:
  assumes "0 \<le> n" "n \<le> int (length fk)"
  shows "Multinomial_estimateExpectedObservationCount n n fk s_obs fre = Inr (real_of_int s_obs)"
proof -
  have "(\<Sum>k\<leftarrow>[1..n]. alpha_val n k n * real_of_int (fk ! nat (k - 1)))
          = (\<Sum>k\<leftarrow>[1..n]. 0)"
    by (intro arg_cong [where f = sum_list] map_cong refl) (simp add: alpha_val_at_n)
  then have "(\<Sum>k\<leftarrow>[1..n]. alpha_val n k n * real_of_int (fk ! nat (k - 1))) = 0"
    by (simp only: sum_list_0)
  then show ?thesis
    using expected_interpolation [OF assms(1) order_refl assms(2), of s_obs fre] by simp
qed

lemma estimate_sizes_Inr:
  assumes "estimate_sizes pe fre n fk num_obs sizes = Inr res" "sz \<in> set sizes"
  shows "\<exists>c se. estimateExpectedObservationCount pe sz n fk num_obs fre = Inr c
               \<and> (sz, c, se) \<in> set res"
  using assms
proof (induction sizes arbitrary: res)
  case Nil
  then show ?case by simp
next
  case (Cons s sizes)
  from Cons.prems(1) obtain c se rest where
    c: "estimateExpectedObservationCount pe s n fk num_obs fre = Inr c"
    and rest: "estimate_sizes pe fre n fk num_obs sizes = Inr rest"
    and res: "res = (s, c, se) # rest"
    by (auto split: sum.splits)
  show ?case
  proof (cases "sz = s")
    case True
    then show ?thesis using c res by auto
  next
    case False
    then have "sz \<in> set sizes" using Cons.prems(2) by simp
    then show ?thesis using Cons.IH [OF rest] res by auto
  qed
qed

lemma estimate_samples_Inr:
  assumes "estimate_samples pe fre start stop step_size zs = Inr res"
  shows "length res = length zs"
    and "\<And>i samp_data num_obs n fk. i < length zs \<Longrightarrow> zs ! i = (samp_data, num_obs, n, fk) \<Longrightarrow>
           \<exists>sizes. get_points_to_estimate start stop step_size n = Inr sizes
                 \<and> estimate_sizes pe fre n fk num_obs sizes = Inr (res ! i)"
  using assms
proof (induction zs arbitrary: res)
  case Nil
  {
    case 1
    then show ?case by simp
  next
    case 2
    then show ?case by simp
  }
next
  case (Cons z zs)
  obtain sd0 no0 n0 fk0 where z: "z = (sd0, no0, n0, fk0)" by (cases z)
  {
    case 1
    then obtain sizes sr rest where
      "estimate_samples pe fre start stop step_size zs = Inr rest" "res = sr # rest"
      unfolding z by (auto split: sum.splits)
    then show ?case using Cons.IH(1) by simp
  next
    case (2 i samp_data num_obs n fk)
    from 2(3) obtain sizes sr rest where
      sizes: "get_points_to_estimate start stop step_size n0 = Inr sizes"
      and sr: "estimate_sizes pe fre n0 fk0 no0 sizes = Inr sr"
      and rest: "estimate_samples pe fre start stop step_size zs = Inr rest"
      and res: "res = sr # rest"
      unfolding z by (auto split: sum.splits)
    show ?case
    proof (cases i)
      case 0
      then show ?thesis using 2(2) z sizes sr res by simp
    next
      case (Suc j)
      then have "j < length zs" "zs ! j = (samp_data, num_obs, n, fk)" using 2(1,2) by simp_all
      then show ?thesis using Cons.IH(2) [OF _ _ rest] res Suc by simp
    qed
  }
qed

lemma check_counts_Inr:
  assumes "check_counts cs = Inr u" "c \<in> set cs"
  shows "1 \<le> c"
  using assms by (induction cs) (auto split: if_splits)

lemma call_anchor_point:
  assumes "init t fre MultinomialPointEstimator = Inr self"
    and "call self start stop step_size = Inr res"
    and "i < length t"
  shows "length res = length t"
    and "\<exists>se. (getTotalIndividualCounts t ! i, real_of_int (getObservationCounts t ! i), se)
               \<in> set (res ! i)"
proof -
  let ?n = "getTotalIndividualCounts t ! i"
  let ?fk = "getAbundanceFrequencyCounts t ! i"
  let ?s = "getObservationCounts t ! i"
  let ?zs = "zip (iterSampleData t) (zip (getObservationCounts t)
               (zip (getTotalIndividualCounts t) (getAbundanceFrequencyCounts t)))"
  have self: "self = \<lparr>biom_table = t, FullRichnessEstimator = fre,
                       PointEstimator = MultinomialPointEstimator\<rparr>"
    using assms(1) by (auto simp: init_def isEmpty_def split: if_splits sum.splits)
  have run: "estimate_samples MultinomialPointEstimator fre start stop step_size ?zs = Inr res"
    using assms(2) by (simp add: call_def self)
  have len: "length ?zs = length t"
    by (simp add: getObservationCounts_def getTotalIndividualCounts_def
        getAbundanceFrequencyCounts_def iterSampleData_def)
  show "length res = length t" using estimate_samples_Inr(1) [OF run] len by simp
  have lens: "length (getObservationCounts t) = length t"
    "length (getTotalIndividualCounts t) = length t"
    "length (getAbundanceFrequencyCounts t) = length t"
    "length (iterSampleData t) = length t"
    by (simp_all add: getObservationCounts_def getTotalIndividualCounts_def
        getAbundanceFrequencyCounts_def iterSampleData_def)
  have zi: "?zs ! i = (iterSampleData t ! i, ?s, ?n, ?fk)"
    using assms(3) lens by simp
  have i': "i < length ?zs" using assms(3) len by simp
  obtain sizes where sizes: "get_points_to_estimate start stop step_size ?n = Inr sizes"
    and sr: "estimate_sizes MultinomialPointEstimator fre ?n ?fk ?s sizes = Inr (res ! i)"
    using estimate_samples_Inr(2) [OF run i' zi] by blast
  have mem: "?n \<in> set sizes" using sizes by (rule get_points_to_estimate_contains_reference)
  obtain c se where c: "Multinomial_estimateExpectedObservationCount ?n ?n ?fk ?s fre = Inr c"
    and pt: "(?n, c, se) \<in> set (res ! i)"
    using estimate_sizes_Inr [OF sr mem] by (auto simp: MultinomialPointEstimator_def)
  have "?n \<in> set (getTotalIndividualCounts t)" using assms(3) lens by simp
  moreover have "\<exists>u. check_counts (getTotalIndividualCounts t) = Inr u"
    using assms(1) by (auto simp: init_def split: if_splits sum.splits)
  ultimately have n1: "1 \<le> ?n" using check_counts_Inr by blast
  have "length ?fk = nat ?n"
    using assms(3)
    by (simp add: getAbundanceFrequencyCounts_nth getTotalIndividualCounts_nth
        samp_abundance_freq_count_length)
  then have "Multinomial_estimateExpectedObservationCount ?n ?n ?fk ?s fre
               = Inr (real_of_int ?s)"
    using n1 by (intro expected_at_n) simp_all
  then have "c = real_of_int ?s" using c by simp
  then show "\<exists>se. (?n, real_of_int ?s, se) \<in> set (res ! i)" using pt by blast
qed

text \<open>A call that returns: the sample \<open>[1, 1, 2, 3]\<close> at the depths 1, 4 and 7.\<close>

lemma call_returns_example:
  "\<exists>se1 se4 se7.
     call \<lparr>biom_table = [[1, 1, 2, 3]], FullRichnessEstimator = Chao1FullRichnessEstimator,
            PointEstimator = MultinomialPointEstimator\<rparr> 1 (Some 7) (Some 3)
       = Inr [[(1, 1, se1), (4, 104 / 35, se4), (7, 4, se7)]]"
  by (simp add: call_def getTotalIndividualCounts_def
      getObservationCounts_def getAbundanceFrequencyCounts_def samp_abundance_freq_count_def
      iterSampleData_def get_points_to_estimate_def py_range.simps upto.simps [of 1]
      MultinomialPointEstimator_def Chao1FullRichnessEstimator_def
      Multinomial_estimateExpectedObservationCount_def
      Multinomial_estimateExpectedObservationCountStdErr_def
      Chao1_estimateUnobservedObservationCount_def estimateFullRichness_def
      calculate_alpha_km_def py_index_def py_truediv_def factorial_def fact_numeral)

section \<open>Calls that cannot return\<close>

lemma call_stop_omitted:
  assumes "init t fre pe = Inr self"
  shows "call self start None step_size = Inl ValueError"
proof -
  let ?zs = "zip (iterSampleData t) (zip (getObservationCounts t)
               (zip (getTotalIndividualCounts t) (getAbundanceFrequencyCounts t)))"
  have "length ?zs = length t" by (rule zipped_samples)
  then have ne: "?zs \<noteq> []" using init_Inr(1) [OF assms] by auto
  have "estimate_samples pe fre start None step_size ?zs = Inl ValueError"
    by (rule estimate_samples_invalid [OF _ ne]) simp
  then show ?thesis using init_Inr(2) [OF assms] by (simp add: call_def)
qed

lemma zero_f_hat_no_estimate:
  assumes "n < m" "estimateUnobservedObservationCount fre fk = Inr 0"
  shows "\<exists>e. Multinomial_estimateExpectedObservationCount m n fk s_obs fre = Inl e"
  using assms
  by (cases "py_index fk 0")
     (simp_all add: Multinomial_estimateExpectedObservationCount_def py_truediv_def)

section \<open>Claims\<close>

subsection \<open>C1: a sample with a single individual\<close>

text \<open>
  C1 says that on every valid table every valid call returns, for each sample, a sequence
  with the point at depth \<open>n\<close>. The table with the single sample \<open>[1]\<close> is valid
  (construction succeeds), and the call with \<open>start = stop = step_size = 1\<close> is valid, but
  the call raises IndexError: the standard error at depth \<open>1\<close> asks the Chao1 estimator
  for \<open>fk[1]\<close>, and \<open>fk\<close> has length \<open>n = 1\<close>. (When a call does return,
  \<open>call_anchor_point\<close> above gives the point at depth \<open>n\<close> with the value \<open>s_obs\<close>.)
\<close>

theorem call_raises_on_single_individual_sample:
  "init [[1]] Chao1FullRichnessEstimator MultinomialPointEstimator
     = Inr \<lparr>biom_table = [[1]], FullRichnessEstimator = Chao1FullRichnessEstimator,
            PointEstimator = MultinomialPointEstimator\<rparr>
   \<and> call \<lparr>biom_table = [[1]], FullRichnessEstimator = Chao1FullRichnessEstimator,
            PointEstimator = MultinomialPointEstimator\<rparr> 1 (Some 1) (Some 1)
     = Inl IndexError"
  by (simp add: init_def isEmpty_def call_def getTotalIndividualCounts_def
      getObservationCounts_def getAbundanceFrequencyCounts_def samp_abundance_freq_count_def
      iterSampleData_def get_points_to_estimate_def py_range.simps
      MultinomialPointEstimator_def Chao1FullRichnessEstimator_def
      Multinomial_estimateExpectedObservationCount_def
      Multinomial_estimateExpectedObservationCountStdErr_def
      Chao1_estimateUnobservedObservationCount_def estimateFullRichness_def
      calculate_alpha_km_def py_index_def)

subsection \<open>C2: the call with \<open>stop\<close> omitted\<close>

text \<open>
  C2 says that the call with \<open>stop\<close> omitted succeeds, with \<open>stop\<close> defaulting to the
  sample's own \<open>n\<close>. On the table with the single sample \<open>[1, 1, 2, 3]\<close> the call with
  \<open>stop\<close> omitted raises ValueError, whether \<open>step_size\<close> is omitted too or given as 1:
  \<open>None\<close> is never replaced by \<open>n\<close>, and \<^verbatim>\<open>start > None\<close> is true in Python 2
  (\<open>call_stop_omitted\<close> above: this happens on every constructed estimator).
\<close>

theorem call_without_stop_raises:
  "call \<lparr>biom_table = [[1, 1, 2, 3]], FullRichnessEstimator = Chao1FullRichnessEstimator,
          PointEstimator = MultinomialPointEstimator\<rparr> 1 None None = Inl ValueError
   \<and> call \<lparr>biom_table = [[1, 1, 2, 3]], FullRichnessEstimator = Chao1FullRichnessEstimator,
            PointEstimator = MultinomialPointEstimator\<rparr> 1 None (Some 1) = Inl ValueError"
  by (simp add: call_def getTotalIndividualCounts_def getObservationCounts_def
      getAbundanceFrequencyCounts_def iterSampleData_def get_points_to_estimate_def)

subsection \<open>C3: extrapolation when the unobserved-count estimate is zero\<close>

text \<open>
  C3 says that for \<open>m > n\<close> and \<open>f_hat = 0\<close> the expected count is \<open>s_obs\<close>. For the
  sample \<open>[3]\<close> (\<open>n = 3\<close>, \<open>fk = [0, 0, 1]\<close>, \<open>s_obs = 1\<close>) the Chao1 estimate \<open>f_hat\<close>
  is 0, and at depth \<open>m = 4\<close> the division \<open>f1 / (n * f_hat)\<close> is evaluated and raises
  ZeroDivisionError; nothing guards it.
\<close>

theorem extrapolation_zero_f_hat_raises:
  "Chao1_estimateUnobservedObservationCount [0, 0, 1] = Inr 0
   \<and> Multinomial_estimateExpectedObservationCount 4 3 [0, 0, 1] 1 Chao1FullRichnessEstimator
     = Inl ZeroDivisionError"
  by (simp add: Multinomial_estimateExpectedObservationCount_def Chao1FullRichnessEstimator_def
      Chao1_estimateUnobservedObservationCount_def py_index_def py_truediv_def)

subsection \<open>C4: the Chao1 estimate of the unobserved count\<close>

text \<open>
  C4. On a frequency-count vector with non-negative singleton count \<open>f1\<close> and doubleton
  count \<open>f2\<close>, \<open>estimateUnobservedObservationCount\<close> of the Chao1 estimator returns
  \<open>f1\<^sup>2 / (2 * f2)\<close> when \<open>f2 > 0\<close>, and \<open>f1 * (f1 - 1) / 2\<close> when \<open>f2 = 0\<close>.
\<close>

theorem Chao1_unobserved_count_formula:
  assumes "0 \<le> f1" "0 \<le> f2"
  shows "Chao1_estimateUnobservedObservationCount (f1 # f2 # rest) =
           Inr (if f2 > 0 then (real_of_int f1)\<^sup>2 / (2 * real_of_int f2)
                else real_of_int f1 * (real_of_int f1 - 1) / 2)"
  using assms Chao1_closed [of "f1 # f2 # rest"] by simp

theorem Chao1_unobserved_count_formula_witness:
  "(0::int) \<le> 2 \<and> (0::int) \<le> 1
   \<and> Chao1_estimateUnobservedObservationCount [2, 1, 1, 0, 0, 0, 0] = Inr 2
   \<and> (0::int) \<le> 3 \<and> (0::int) \<le> 0
   \<and> Chao1_estimateUnobservedObservationCount [3, 0, 0] = Inr 3"
  using Chao1_unobserved_count_formula [of 2 1 "[1, 0, 0, 0, 0]"]
    Chao1_unobserved_count_formula [of 3 0 "[0]"]
  by simp

subsection \<open>C5: the expected count is monotone in the depth\<close>

text \<open>
  C5. For a fixed sample of non-negative counts (with its \<open>n\<close>, \<open>fk\<close> and \<open>s_obs\<close>) and
  depths \<open>1 \<le> m \<le> m'\<close>: when both depths are at most \<open>n\<close> both estimates are returned;
  and whenever the estimates at \<open>m\<close> and \<open>m'\<close> are returned (with the Chao1 estimator for
  the depths beyond \<open>n\<close>), the one at \<open>m\<close> is at most the one at \<open>m'\<close>. This covers
  the interpolation regime, the step from it to a depth beyond \<open>n\<close>, and the
  extrapolation regime.
\<close>

theorem expected_count_monotone:
  assumes "\<forall>c\<in>set samp. 0 \<le> c"
    and "n = sum_list samp"
    and "fk = samp_abundance_freq_count samp n"
    and "s_obs = int (length (filter (\<lambda>c. c > 0) samp))"
    and "1 \<le> m" "m \<le> m'"
  shows "(m' \<le> n \<longrightarrow>
            (\<exists>a b. Multinomial_estimateExpectedObservationCount m n fk s_obs
                      Chao1FullRichnessEstimator = Inr a
                  \<and> Multinomial_estimateExpectedObservationCount m' n fk s_obs
                      Chao1FullRichnessEstimator = Inr b))
       \<and> (\<forall>a b. Multinomial_estimateExpectedObservationCount m n fk s_obs
                    Chao1FullRichnessEstimator = Inr a
                \<and> Multinomial_estimateExpectedObservationCount m' n fk s_obs
                    Chao1FullRichnessEstimator = Inr b
                \<longrightarrow> a \<le> b)"
proof -
  let ?E = "\<lambda>d. Multinomial_estimateExpectedObservationCount d n fk s_obs
                   Chao1FullRichnessEstimator"
  let ?S = "\<lambda>d. \<Sum>k\<leftarrow>[1..n]. alpha_val n k d * real_of_int (fk ! nat (k - 1))"
  have n0: "0 \<le> n" using assms(1,2) by (simp add: sum_list_nonneg)
  have len: "n \<le> int (length fk)"
    using n0 by (simp add: assms(3) samp_abundance_freq_count_length)
  have fk_nonneg: "\<forall>f\<in>set fk. 0 \<le> f"
    unfolding assms(3) by (rule samp_abundance_freq_count_nonneg)
  have entry_nonneg: "\<forall>k\<in>{1..n}. 0 \<le> fk ! nat (k - 1)"
    by (simp add: assms(3) samp_abundance_freq_count_nth)
  have interp: "?E d = Inr (real_of_int s_obs - ?S d)" if "0 \<le> d" "d \<le> n" for d
    using that len by (rule expected_interpolation)
  have S_nonneg: "0 \<le> ?S d" if "0 \<le> d" for d
    using entry_nonneg that by (rule weighted_sum_bounds)
  have extrap: "0 < chao1_val fk
      \<and> 0 \<le> real_of_int (fk ! 0) / (real_of_int n * chao1_val fk)
      \<and> real_of_int (fk ! 0) / (real_of_int n * chao1_val fk) \<le> 1
      \<and> b = real_of_int s_obs + chao1_val fk
               * (1 - (1 - real_of_int (fk ! 0) / (real_of_int n * chao1_val fk)) ^ nat (d - n))"
    if "n < d" "?E d = Inr b" for d b
  proof -
    note e = expected_extrapolation [OF that fk_nonneg]
    have n2: "2 \<le> n" using e(1) by (simp add: assms(3) samp_abundance_freq_count_length)
    have nn: "0 \<le> fk ! 0" "0 \<le> fk ! 1" using fk_nonneg e(1) by (rule first_two_nonneg)+
    have le: "fk ! 0 + 2 * fk ! 1 \<le> n"
      using first_two_le_total [OF assms(1)] n2 by (simp add: assms(2,3))
    show ?thesis
      using chao1_ratio_bounds [OF nn le] e(2,3) by (simp add: chao1_val_def)
  qed
  have total: "m' \<le> n \<longrightarrow> (\<exists>a b. ?E m = Inr a \<and> ?E m' = Inr b)"
    using interp [of m] interp [of m'] assms(5,6) by auto
  have mono: "a \<le> b" if ab: "?E m = Inr a" "?E m' = Inr b" for a b
  proof -
    consider (both) "m' \<le> n" | (across) "m \<le> n" "n < m'" | (beyond) "n < m"
      using assms(6) by linarith
    then show ?thesis
    proof cases
      case both
      have "?S m' \<le> ?S m"
      proof (rule sum_list_mono)
        fix k assume "k \<in> set [1..n]"
        then have "0 \<le> real_of_int (fk ! nat (k - 1))" using entry_nonneg by simp
        then show "alpha_val n k m' * real_of_int (fk ! nat (k - 1))
                     \<le> alpha_val n k m * real_of_int (fk ! nat (k - 1))"
          using alpha_val_antimono [OF assms(6), of n k] by (intro mult_right_mono)
      qed
      then show ?thesis
        using ab interp [of m] interp [of m'] both assms(5,6) by simp
    next
      case across
      have "a \<le> real_of_int s_obs"
        using ab(1) interp [of m] S_nonneg [of m] across assms(5) by simp
      moreover have "real_of_int s_obs \<le> b"
      proof -
        let ?r = "1 - real_of_int (fk ! 0) / (real_of_int n * chao1_val fk)"
        note x = extrap [OF across(2) ab(2)]
        have "0 \<le> ?r" "?r \<le> 1" using x by simp_all
        then have "?r ^ nat (m' - n) \<le> 1" by (rule power_le_one)
        then have "0 \<le> chao1_val fk * (1 - ?r ^ nat (m' - n))" using x by simp
        then show ?thesis using x by simp
      qed
      ultimately show ?thesis by simp
    next
      case beyond
      let ?r = "1 - real_of_int (fk ! 0) / (real_of_int n * chao1_val fk)"
      have n_m': "n < m'" using beyond assms(6) by simp
      note xa = extrap [OF beyond ab(1)]
      note xb = extrap [OF n_m' ab(2)]
      have r: "0 \<le> ?r" "?r \<le> 1" using xa by simp_all
      have "nat (m - n) \<le> nat (m' - n)" using assms(6) by simp
      then have "?r ^ nat (m' - n) \<le> ?r ^ nat (m - n)" using r by (rule power_decreasing)
      then have "chao1_val fk * (1 - ?r ^ nat (m - n)) \<le> chao1_val fk * (1 - ?r ^ nat (m' - n))"
        using xa by (intro mult_left_mono) simp_all
      then show ?thesis using xa xb by simp
    qed
  qed
  show ?thesis using total mono by blast
qed

theorem expected_count_monotone_witness:
  "\<exists>a b. Multinomial_estimateExpectedObservationCount 3 7 [2, 1, 1, 0, 0, 0, 0] 4
             Chao1FullRichnessEstimator = Inr a
         \<and> Multinomial_estimateExpectedObservationCount 8 7 [2, 1, 1, 0, 0, 0, 0] 4
             Chao1FullRichnessEstimator = Inr b
         \<and> a \<le> b"
proof -
  let ?fk = "[2, 1, 1, 0, 0, 0, 0] :: int list"
  have fk: "?fk = samp_abundance_freq_count [1, 1, 2, 3] 7"
    by (simp add: samp_abundance_freq_count_def upto.simps [of 1])
  obtain a where a: "Multinomial_estimateExpectedObservationCount 3 7 ?fk 4
                       Chao1FullRichnessEstimator = Inr a"
    using expected_interpolation [of 3 7 ?fk 4 Chao1FullRichnessEstimator] by simp
  have b: "Multinomial_estimateExpectedObservationCount 8 7 ?fk 4
             Chao1FullRichnessEstimator = Inr (30 / 7)"
    by (simp add: Multinomial_estimateExpectedObservationCount_def Chao1FullRichnessEstimator_def
        Chao1_estimateUnobservedObservationCount_def py_index_def py_truediv_def)
  have valid: "\<forall>c\<in>set [1, 1, 2, 3::int]. 0 \<le> c" by simp
  have n: "(7::int) = sum_list [1, 1, 2, 3]" by simp
  have s_obs: "(4::int) = int (length (filter (\<lambda>c. c > 0) [1, 1, 2, 3::int]))" by simp
  have depths: "(1::int) \<le> 3" "(3::int) \<le> 8" by simp_all
  have "a \<le> 30 / 7"
    using expected_count_monotone [OF valid n fk s_obs depths] a b by blast
  then show ?thesis using a b by blast
qed

subsection \<open>C6: how the interpolation weight is computed\<close>

text \<open>
  C6 says that the weight is computed as a product of falling-factorial ratios (or in the
  log domain) and that the factorial of \<open>n\<close> is never evaluated. The source calls
  \<^verbatim>\<open>factorial(n)\<close>: for \<open>n = 7\<close>, \<open>k = 1\<close>, \<open>m = 3\<close> the calls it makes are those of 6, 4, 7
  and 3, the argument 7 among them, and the result, \<open>4/7\<close>, is the result of
  \<open>calculate_alpha_km\<close>.
\<close>

theorem alpha_km_evaluates_factorial_of_n:
  "calculate_alpha_km_logged 7 1 3 [] = ([6, 4, 7, 3], Inr (4 / 7))
   \<and> (7::int) \<in> set (fst (calculate_alpha_km_logged 7 1 3 []))
   \<and> calculate_alpha_km 7 1 3 = snd (calculate_alpha_km_logged 7 1 3 [])"
  by (simp add: calculate_alpha_km_logged_def factorial_logged_def calculate_alpha_km_def
      factorial_def py_truediv_def fact_numeral)

text \<open>
  C6, amended. For \<open>0 \<le> k \<le> n\<close> and \<open>0 \<le> m \<le> n\<close> (the loops call it with \<open>k\<close> from 1 to
  \<open>n\<close> and \<open>m \<le> n\<close>): when \<open>k \<le> n - m\<close>, the weight is computed from exactly the four calls
  \<^verbatim>\<open>factorial(n - k)\<close>, \<^verbatim>\<open>factorial(n - m)\<close>, \<^verbatim>\<open>factorial(n)\<close> and \<^verbatim>\<open>factorial(n - k - m)\<close>, made
  in this order on exact unbounded integers, so that \<open>n!\<close> is evaluated, and it is
  \<open>(n - k)! (n - m)! / (n! (n - k - m)!)\<close>; when \<open>k > n - m\<close>, it is 0 and no factorial is
  evaluated. In both cases the value returned equals the product of the ratio terms
  \<open>(n - k - i) / (n - i)\<close> for \<open>i = 0..m - 1\<close>. The result of the function with the calls
  recorded is the result of \<open>calculate_alpha_km\<close>.
\<close>

theorem alpha_km_by_factorials:
  assumes "0 \<le> k" "k \<le> n" "0 \<le> m" "m \<le> n"
  shows "calculate_alpha_km_logged n k m log0 =
           (if k \<le> n - m
            then (log0 @ [n - k, n - m, n, n - k - m],
                  Inr (real (fact (nat (n - k)) * fact (nat (n - m)))
                       / real (fact (nat n) * fact (nat (n - k - m)))))
            else (log0, Inr 0))
       \<and> calculate_alpha_km n k m = snd (calculate_alpha_km_logged n k m log0)
       \<and> calculate_alpha_km n k m
           = Inr (\<Prod>i = 0..<nat m. real_of_int (n - k - int i) / real_of_int (n - int i))"
proof -
  let ?P = "\<Prod>i = 0..<nat m. real_of_int (n - k - int i) / real_of_int (n - int i)"
  let ?F = "real (fact (nat (n - k)) * fact (nat (n - m)))
              / real (fact (nat n) * fact (nat (n - k - m)))"
  have logged: "calculate_alpha_km_logged n k m log0 =
           (if k \<le> n - m then (log0 @ [n - k, n - m, n, n - k - m], Inr ?F) else (log0, Inr 0))"
    using assms
    by (simp add: calculate_alpha_km_logged_def factorial_logged_def factorial_def
        py_truediv_def)
  have tie: "calculate_alpha_km n k m = snd (calculate_alpha_km_logged n k m log0)"
    by (rule calculate_alpha_km_logged_result [symmetric])
  have prod: "(if k \<le> n - m then ?F else 0) = ?P"
  proof (cases "k \<le> n - m")
    case True
    have nat_eqs: "nat (n - k) = nat n - nat k" "nat (n - m) = nat n - nat m"
      "nat (n - k - m) = nat n - nat k - nat m"
      using assms True by simp_all
    have le: "nat k + nat m \<le> nat n" using assms True by simp
    have "?P = (\<Prod>i = 0..<nat m. (real (nat n) - real (nat k) - real i) / (real (nat n) - real i))"
      using assms by (intro prod.cong refl) simp
    also have "\<dots> = ?F"
      unfolding nat_eqs by (rule prod_ratio_fact [OF le])
    finally show ?thesis using True by simp
  next
    case False
    have mem: "nat (n - k) \<in> {0..<nat m}" using assms False by simp
    have z: "real_of_int (n - k - int (nat (n - k))) / real_of_int (n - int (nat (n - k))) = 0"
      using assms by simp
    have "\<exists>i\<in>{0..<nat m}. real_of_int (n - k - int i) / real_of_int (n - int i) = 0"
      using z mem by (rule bexI)
    then have "?P = 0" by (intro prod_zero finite_atLeastLessThan)
    then show ?thesis using False by simp
  qed
  have val: "calculate_alpha_km n k m = Inr ?P"
    unfolding tie logged using prod by (simp split: if_splits)
  show ?thesis using logged tie val by blast
qed

theorem alpha_km_by_factorials_witness:
  "calculate_alpha_km_logged 7 1 3 [] = ([6, 4, 7, 3], Inr (4 / 7))
   \<and> calculate_alpha_km 7 1 3 = Inr (4 / 7)
   \<and> calculate_alpha_km_logged 7 5 3 [] = ([], Inr 0)
   \<and> calculate_alpha_km 7 5 3 = Inr 0"
proof -
  have computed: "(0::int) \<le> 1" "(1::int) \<le> 7" "(0::int) \<le> 3" "(3::int) \<le> 7" by simp_all
  have zero: "(0::int) \<le> 5" "(5::int) \<le> 7" "(0::int) \<le> 3" "(3::int) \<le> 7" by simp_all
  note a = alpha_km_by_factorials [OF computed, of "[]"]
  note b = alpha_km_by_factorials [OF zero, of "[]"]
  have a1: "calculate_alpha_km_logged 7 1 3 [] = ([6, 4, 7, 3], Inr (4 / 7))"
    using a [THEN conjunct1] by (simp add: fact_numeral)
  have b1: "calculate_alpha_km_logged 7 5 3 [] = ([], Inr 0)"
    using b [THEN conjunct1] by simp
  have a2: "calculate_alpha_km 7 1 3 = Inr (4 / 7)"
    using a [THEN conjunct2, THEN conjunct1] a1 by simp
  have b2: "calculate_alpha_km 7 5 3 = Inr 0"
    using b [THEN conjunct2, THEN conjunct1] b1 by simp
  show ?thesis using a1 a2 b1 b2 by blast
qed

subsection \<open>C7: validation of the range parameters\<close>

text \<open>
  C7. On a constructed estimator (with the Chao1 and multinomial strategies) the call raises
  ValueError, the validation error of \<^verbatim>\<open>_get_points_to_estimate\<close>, if and only if
  \<open>start < 1\<close> or \<open>step_size < 1\<close> or \<open>start > stop\<close>. The comparisons are Python's: for a
  given \<open>stop\<close> and \<open>step_size\<close> they are the comparisons of integers, and an omitted one
  is \<open>None\<close>, which is below every integer.
\<close>

theorem call_ValueError_iff:
  assumes "init t Chao1FullRichnessEstimator MultinomialPointEstimator = Inr self"
  shows "call self start stop step_size = Inl ValueError
           \<longleftrightarrow> start < 1 \<or> py2_lt step_size (Some 1) \<or> py2_lt stop (Some start)"
proof -
  let ?zs = "zip (iterSampleData t) (zip (getObservationCounts t)
               (zip (getTotalIndividualCounts t) (getAbundanceFrequencyCounts t)))"
  have self: "call self start stop step_size
                = estimate_samples MultinomialPointEstimator Chao1FullRichnessEstimator start
                    stop step_size ?zs"
    using init_Inr(2) [OF assms] by (simp add: call_def)
  have "length ?zs = length t" by (rule zipped_samples)
  then have ne: "?zs \<noteq> []" using init_Inr(1) [OF assms] by auto
  show ?thesis
  proof (cases "start < 1 \<or> py2_lt step_size (Some 1) \<or> py2_lt stop (Some start)")
    case True
    then show ?thesis using estimate_samples_invalid [OF True ne] self by simp
  next
    case False
    then obtain b s where given: "stop = Some b" "step_size = Some s"
      and ok: "\<not> (start < 1 \<or> s < 1 \<or> b < start)"
      using py2_lt_Some [of stop start] py2_lt_Some [of step_size 1] by auto
    have "\<forall>z\<in>set ?zs. \<forall>f\<in>set (snd (snd (snd z))). 0 \<le> f"
      using zipped_samples_nonneg by blast
    then show ?thesis
      using estimate_samples_no_ValueError [OF ok] self False unfolding given by simp
  qed
qed

theorem call_ValueError_iff_witness:
  "(call \<lparr>biom_table = [[1, 1, 2, 3]], FullRichnessEstimator = Chao1FullRichnessEstimator,
           PointEstimator = MultinomialPointEstimator\<rparr> 0 (Some 7) (Some 1) = Inl ValueError)
   \<and> (call \<lparr>biom_table = [[1, 1, 2, 3]], FullRichnessEstimator = Chao1FullRichnessEstimator,
           PointEstimator = MultinomialPointEstimator\<rparr> 1 (Some 7) (Some 0) = Inl ValueError)
   \<and> (call \<lparr>biom_table = [[1, 1, 2, 3]], FullRichnessEstimator = Chao1FullRichnessEstimator,
           PointEstimator = MultinomialPointEstimator\<rparr> 8 (Some 7) (Some 1) = Inl ValueError)
   \<and> (call \<lparr>biom_table = [[1, 1, 2, 3]], FullRichnessEstimator = Chao1FullRichnessEstimator,
           PointEstimator = MultinomialPointEstimator\<rparr> 1 (Some 7) (Some 1) \<noteq> Inl ValueError)"
proof -
  have i: "init [[1, 1, 2, 3]] Chao1FullRichnessEstimator MultinomialPointEstimator
             = Inr \<lparr>biom_table = [[1, 1, 2, 3]], FullRichnessEstimator = Chao1FullRichnessEstimator,
                   PointEstimator = MultinomialPointEstimator\<rparr>"
    by (simp add: init_def isEmpty_def getTotalIndividualCounts_def iterSampleData_def)
  show ?thesis
    using call_ValueError_iff [OF i, of 0 "Some 7" "Some 1"]
      call_ValueError_iff [OF i, of 1 "Some 7" "Some 0"]
      call_ValueError_iff [OF i, of 8 "Some 7" "Some 1"]
      call_ValueError_iff [OF i, of 1 "Some 7" "Some 1"]
    by simp
qed

subsection \<open>C8: construction of the estimator\<close>

text \<open>
  C8. Construction raises EmptyTableError exactly when the table has no samples; on a table
  with samples it raises EmptySampleError when some sample's total individual count is less
  than 1, and otherwise (every total is at least 1) it succeeds and returns the estimator
  holding the table and the two strategy objects.
\<close>

theorem init_outcome:
  "init t fre pe =
     (if length t = 0 then Inl EmptyTableError
      else if list_ex (\<lambda>c. c < 1) (getTotalIndividualCounts t) then Inl EmptySampleError
      else Inr \<lparr>biom_table = t, FullRichnessEstimator = fre, PointEstimator = pe\<rparr>)"
proof -
  have "check_counts cs = (if list_ex (\<lambda>c. c < 1) cs then Inl EmptySampleError else Inr ())"
    for cs
    by (induction cs) auto
  then show ?thesis by (simp add: init_def isEmpty_def)
qed

theorem init_outcome_witness:
  "init [] Chao1FullRichnessEstimator MultinomialPointEstimator = Inl EmptyTableError
   \<and> init [[1, 1, 2, 3], [0, 0, 0, 0]] Chao1FullRichnessEstimator MultinomialPointEstimator
       = Inl EmptySampleError
   \<and> init [[1, 1, 2, 3]] Chao1FullRichnessEstimator MultinomialPointEstimator
       = Inr \<lparr>biom_table = [[1, 1, 2, 3]], FullRichnessEstimator = Chao1FullRichnessEstimator,
              PointEstimator = MultinomialPointEstimator\<rparr>"
  using init_outcome [of "[]" Chao1FullRichnessEstimator MultinomialPointEstimator]
    init_outcome [of "[[1, 1, 2, 3], [0, 0, 0, 0]]" Chao1FullRichnessEstimator
      MultinomialPointEstimator]
    init_outcome [of "[[1, 1, 2, 3]]" Chao1FullRichnessEstimator MultinomialPointEstimator]
  by (simp add: getTotalIndividualCounts_def iterSampleData_def)

subsection \<open>C9: bounds of the interpolated estimate\<close>

text \<open>
  C9. For \<open>n \<ge> 1\<close>, a depth \<open>m\<close> with \<open>1 \<le> m \<le> n\<close> and a frequency-count vector
  \<open>fk\<close> whose entries \<open>fk[k - 1]\<close>, \<open>k = 1..n\<close>, are non-negative and sum to \<open>s_obs\<close>,
  \<open>estimateExpectedObservationCount\<close> returns an estimate \<open>e\<close> with
  \<open>0 \<le> e \<le> s_obs\<close>, whatever the full-richness estimator.
\<close>

theorem interpolation_estimate_bounds:
  assumes "1 \<le> n" "1 \<le> m" "m \<le> n" "n \<le> int (length fk)"
    and "\<forall>k\<in>{1..n}. 0 \<le> fk ! nat (k - 1)"
    and "(\<Sum>k = 1..n. fk ! nat (k - 1)) = s_obs"
  shows "\<exists>e. Multinomial_estimateExpectedObservationCount m n fk s_obs fre = Inr e
             \<and> 0 \<le> e \<and> e \<le> real_of_int s_obs"
proof -
  have m0: "0 \<le> m" using assms(2) by simp
  let ?S = "\<Sum>k\<leftarrow>[1..n]. alpha_val n k m * real_of_int (fk ! nat (k - 1))"
  have "Multinomial_estimateExpectedObservationCount m n fk s_obs fre
          = Inr (real_of_int s_obs - ?S)"
    using m0 assms(3,4) by (rule expected_interpolation)
  moreover have "0 \<le> ?S" using assms(5) m0 by (rule weighted_sum_bounds)
  moreover have "?S \<le> real_of_int s_obs"
    using weighted_sum_bounds(2) [OF assms(5) m0] assms(6) by simp
  ultimately show ?thesis by simp
qed

theorem interpolation_estimate_bounds_witness:
  "\<exists>e. Multinomial_estimateExpectedObservationCount 3 7 [2, 1, 1, 0, 0, 0, 0] 4
          Chao1FullRichnessEstimator = Inr e \<and> 0 \<le> e \<and> e \<le> real_of_int 4"
proof -
  have nonneg: "\<forall>k\<in>{1..7::int}. 0 \<le> [2, 1, 1, 0, 0, 0, 0::int] ! nat (k - 1)"
    by (simp add: set_upto [symmetric] upto.simps [of 1] del: set_upto)
  have total: "(\<Sum>k = 1..7::int. [2, 1, 1, 0, 0, 0, 0::int] ! nat (k - 1)) = 4"
    by (simp add: set_upto [symmetric] upto.simps [of 1] del: set_upto)
  show ?thesis
    using interpolation_estimate_bounds [of 7 3 "[2, 1, 1, 0, 0, 0, 0]" 4
        Chao1FullRichnessEstimator] nonneg total
    by simp
qed

subsection \<open>C10: invariants of the abundance frequency counts\<close>

text \<open>
  C10. For every sample \<open>i\<close> of a table whose counts are non-negative, the derived
  abundance-frequency-count vector \<open>fk\<close> has length \<open>n\<close> (the sample's total individual
  count), the sum of \<open>k * fk[k - 1]\<close> for \<open>k = 1..n\<close> is \<open>n\<close>, and the sum of \<open>fk[k - 1]\<close>
  for \<open>k = 1..n\<close> is \<open>s_obs\<close> (the sample's observation count).
\<close>

theorem abundance_frequency_counts_invariants:
  assumes "i < length t" "\<forall>c\<in>set (t ! i). 0 \<le> c"
  shows "length (getAbundanceFrequencyCounts t ! i) = nat (getTotalIndividualCounts t ! i)
       \<and> (\<Sum>k = 1..getTotalIndividualCounts t ! i.
             k * (getAbundanceFrequencyCounts t ! i) ! nat (k - 1))
           = getTotalIndividualCounts t ! i
       \<and> (\<Sum>k = 1..getTotalIndividualCounts t ! i.
             (getAbundanceFrequencyCounts t ! i) ! nat (k - 1))
           = getObservationCounts t ! i"
  unfolding getAbundanceFrequencyCounts_nth [OF assms(1)] getTotalIndividualCounts_nth [OF assms(1)]
    getObservationCounts_nth [OF assms(1)]
  using samp_abundance_freq_count_sums [OF assms(2)]
  by (simp add: samp_abundance_freq_count_length)

theorem abundance_frequency_counts_invariants_witness:
  "(0::nat) < length [[1, 1, 0, 2, 3::int]]
   \<and> list_all (\<lambda>c. 0 \<le> c) ([[1, 1, 0, 2, 3::int]] ! 0)
   \<and> length (getAbundanceFrequencyCounts [[1, 1, 0, 2, 3]] ! 0)
       = nat (getTotalIndividualCounts [[1, 1, 0, 2, 3]] ! 0)
   \<and> (\<Sum>k = 1..getTotalIndividualCounts [[1, 1, 0, 2, 3]] ! 0.
             k * (getAbundanceFrequencyCounts [[1, 1, 0, 2, 3]] ! 0) ! nat (k - 1))
           = getTotalIndividualCounts [[1, 1, 0, 2, 3]] ! 0
   \<and> (\<Sum>k = 1..getTotalIndividualCounts [[1, 1, 0, 2, 3]] ! 0.
             (getAbundanceFrequencyCounts [[1, 1, 0, 2, 3]] ! 0) ! nat (k - 1))
           = getObservationCounts [[1, 1, 0, 2, 3]] ! 0"
  using abundance_frequency_counts_invariants [of 0 "[[1, 1, 0, 2, 3]]"] by simp

end
